theory Spec2Isabelle
  imports Main "HOL-Library.Sublist" "HOL-Library.AList" "HOL-Library.Product_Lexorder"
begin

section \<open>Calendar values\<close>

text \<open>
  The program works on Python \<^verbatim>\<open>datetime\<close> values. A naive datetime is a record of its
  seven fields; \<^verbatim>\<open>start.replace(day=1, hour=0, ...)\<close> is a record update.
\<close>

record datetime =
  year :: nat
  month :: nat
  day :: nat
  hour :: nat
  minute :: nat
  second :: nat
  microsecond :: nat

datatype error =
    OverflowError
  | FileNotFoundError
  | FileExistsError
  | NotADirectoryError
  | IsADirectoryError
  | PermissionError
  | DirectoryNotEmpty
  | InvalidArgument

definition is_leap :: "nat \<Rightarrow> bool" where
  "is_leap y = (y mod 4 = 0 \<and> (y mod 100 \<noteq> 0 \<or> y mod 400 = 0))"

definition days_in_month :: "nat \<Rightarrow> nat \<Rightarrow> nat" where
  "days_in_month y m =
     (if m = 2 then (if is_leap y then 29 else 28)
      else if m = 4 \<or> m = 6 \<or> m = 9 \<or> m = 11 then 30
      else 31)"

definition MAXYEAR :: nat where
  "MAXYEAR = 9999"

definition valid_date :: "datetime \<Rightarrow> bool" where
  "valid_date d =
     (1 \<le> year d \<and> year d \<le> MAXYEAR \<and> 1 \<le> month d \<and> month d \<le> 12 \<and>
      1 \<le> day d \<and> day d \<le> days_in_month (year d) (month d))"

text \<open>
  \<^verbatim>\<open>start + timedelta(days=1)\<close>: the next calendar day, same time of day. Python raises
  \<^verbatim>\<open>OverflowError\<close> when the result would lie after 9999-12-31.
\<close>

definition add_day :: "datetime \<Rightarrow> error + datetime" where
  "add_day d =
     (if day d < days_in_month (year d) (month d) then Inr (d\<lparr>day := day d + 1\<rparr>)
      else if month d < 12 then Inr (d\<lparr>month := month d + 1, day := 1\<rparr>)
      else if year d < MAXYEAR then Inr (d\<lparr>year := year d + 1, month := 1, day := 1\<rparr>)
      else Inl OverflowError)"

text \<open>\<^verbatim>\<open>start - timedelta(days=1)\<close>; \<^verbatim>\<open>OverflowError\<close> before 0001-01-01.\<close>

definition sub_day :: "datetime \<Rightarrow> error + datetime" where
  "sub_day d =
     (if 1 < day d then Inr (d\<lparr>day := day d - 1\<rparr>)
      else if 1 < month d
        then Inr (d\<lparr>month := month d - 1, day := days_in_month (year d) (month d - 1)\<rparr>)
      else if 1 < year d then Inr (d\<lparr>year := year d - 1, month := 12, day := 31\<rparr>)
      else Inl OverflowError)"

text \<open>Comparison of naive datetimes is lexicographic on the fields.\<close>

definition dt_le :: "datetime \<Rightarrow> datetime \<Rightarrow> bool" where
  "dt_le a b =
     ((year a, month a, day a, hour a, minute a, second a, microsecond a)
        \<le> (year b, month b, day b, hour b, minute b, second b, microsecond b))"

section \<open>Formatting\<close>

text \<open>\<^verbatim>\<open>str(n)\<close> for a non-negative integer: its decimal digits, most significant first.\<close>

definition digit_char :: "nat \<Rightarrow> char" where
  "digit_char n = ''0123456789'' ! n"

fun str_nat :: "nat \<Rightarrow> string" where
  "str_nat n = (if n < 10 then [digit_char n] else str_nat (n div 10) @ [digit_char (n mod 10)])"

declare str_nat.simps [simp del]

text \<open>\<^verbatim>\<open>strftime("%B")\<close> in the C locale: the full English month name.\<close>

definition month_name :: "nat \<Rightarrow> string" where
  "month_name m =
     (if m = 1 then ''January'' else if m = 2 then ''February'' else if m = 3 then ''March''
      else if m = 4 then ''April'' else if m = 5 then ''May'' else if m = 6 then ''June''
      else if m = 7 then ''July'' else if m = 8 then ''August''
      else if m = 9 then ''September'' else if m = 10 then ''October''
      else if m = 11 then ''November'' else if m = 12 then ''December'' else [])"

text \<open>\<^verbatim>\<open>d.strftime("%B")[0:3]\<close>\<close>

definition month_abbrev :: "datetime \<Rightarrow> string" where
  "month_abbrev d = take 3 (month_name (month d))"

text \<open>\<^verbatim>\<open>f"{d.month}-{d.day}"\<close>\<close>

definition month_day :: "datetime \<Rightarrow> string" where
  "month_day d = str_nat (month d) @ ''-'' @ str_nat (day d)"

section \<open>Paths\<close>

text \<open>A path is the list of its components below the file-system root.\<close>

type_synonym path = "string list"

text \<open>Line 57: the bucket the File Relocator computes for a file modified at local time \<open>mt\<close>.\<close>

definition move_target :: "path \<Rightarrow> datetime \<Rightarrow> path" where
  "move_target folder modified_time = folder @ [month_abbrev modified_time, month_day modified_time]"

text \<open>Lines 97 and 137: the bucket the \<^verbatim>\<open>all\<close> and \<^verbatim>\<open>year\<close> skeleton loops create for a day.\<close>

definition year_target :: "path \<Rightarrow> datetime \<Rightarrow> path" where
  "year_target folder start =
     folder @ [str_nat (year start), month_abbrev start, month_day start]"

text \<open>Line 179: the bucket the \<^verbatim>\<open>month\<close> skeleton loop creates for a day.\<close>

definition month_target :: "path \<Rightarrow> datetime \<Rightarrow> path" where
  "month_target folder start = folder @ [month_abbrev start, month_day start]"

section \<open>The file system\<close>

text \<open>
  The file system is the only state of the program. It is an association list from paths to
  nodes; the order of the list is the order in which the operating system lists directory
  entries. A regular file carries its two timestamps (whole seconds since the epoch) and
  its content; a directory carries whether entries may be added to it or removed from it.
  The root \<open>[]\<close> always exists. Symbolic links are not modelled, and nothing but the
  program changes the file system while it runs.
\<close>

datatype node =
    File (st_mtime: int) (st_ctime: int) (content: nat)
  | Dir (writable: bool)

type_synonym fs = "(path \<times> node) list"

definition lookup :: "fs \<Rightarrow> path \<Rightarrow> node option" where
  "lookup fs p = (if p = [] then Some (Dir True) else map_of fs p)"

definition exists :: "fs \<Rightarrow> path \<Rightarrow> bool" where
  "exists fs p = (lookup fs p \<noteq> None)"

definition is_file :: "fs \<Rightarrow> path \<Rightarrow> bool" where
  "is_file fs p = (case lookup fs p of Some (File _ _ _) \<Rightarrow> True | _ \<Rightarrow> False)"

definition is_dir :: "fs \<Rightarrow> path \<Rightarrow> bool" where
  "is_dir fs p = (case lookup fs p of Some (Dir _) \<Rightarrow> True | _ \<Rightarrow> False)"

definition can_write :: "fs \<Rightarrow> path \<Rightarrow> bool" where
  "can_write fs p = (case lookup fs p of Some (Dir w) \<Rightarrow> w | _ \<Rightarrow> False)"

text \<open>\<^verbatim>\<open>p.iterdir()\<close> / \<^verbatim>\<open>os.scandir(p)\<close>: the names of the entries of directory \<open>p\<close>.\<close>

definition iterdir :: "fs \<Rightarrow> path \<Rightarrow> string list" where
  "iterdir fs p =
     (if is_dir fs p
      then remdups (map last (filter (\<lambda>q. q \<noteq> [] \<and> butlast q = p) (map fst fs)))
      else [])"

text \<open>\<^verbatim>\<open>os.mkdir(p)\<close>\<close>

definition os_mkdir :: "fs \<Rightarrow> path \<Rightarrow> error + fs" where
  "os_mkdir fs p =
     (if exists fs p then Inl FileExistsError
      else case lookup fs (butlast p) of
             None \<Rightarrow> Inl FileNotFoundError
           | Some (File _ _ _) \<Rightarrow> Inl NotADirectoryError
           | Some (Dir w) \<Rightarrow> if w then Inr (fs @ [(p, Dir True)]) else Inl PermissionError)"

text \<open>
  \<^verbatim>\<open>p.mkdir(parents=True, exist_ok=True)\<close>, as pathlib writes it: try \<^verbatim>\<open>os.mkdir\<close>; on
  \<^verbatim>\<open>FileNotFoundError\<close> create the parent the same way and try once more; any other
  \<^verbatim>\<open>OSError\<close> is swallowed when the path is a directory by now.
\<close>

function mkdir :: "fs \<Rightarrow> path \<Rightarrow> error + fs" where
  "mkdir fs p =
     (case os_mkdir fs p of
        Inr fs' \<Rightarrow> Inr fs'
      | Inl e \<Rightarrow>
          if e = FileNotFoundError then
            (if p = [] then Inl e
             else case mkdir fs (butlast p) of
                    Inl e' \<Rightarrow> Inl e'
                  | Inr fs1 \<Rightarrow>
                      (case os_mkdir fs1 p of
                         Inr fs2 \<Rightarrow> Inr fs2
                       | Inl e2 \<Rightarrow>
                           if e2 = FileNotFoundError then Inl e2
                           else if is_dir fs1 p then Inr fs1 else Inl e2))
          else if is_dir fs p then Inr fs else Inl e)"
  by pat_completeness auto
termination
  by (relation "measure (\<lambda>(fs, p). length p)") auto

declare mkdir.simps [simp del]

text \<open>
  \<^verbatim>\<open>src.rename(dst)\<close> (POSIX \<^verbatim>\<open>rename\<close>). A missing source or a missing destination
  directory is \<^verbatim>\<open>FileNotFoundError\<close>; both parent directories must be writable. A
  regular file replaces an existing regular file; a directory moves with everything below it.
  The program renames regular files only (line 46) and only to a path that does not exist
  (line 61). The node moves as it is; an operating system may also set \<open>st_ctime\<close> of a
  renamed file, which the program never reads after the move.
\<close>

definition rekey :: "path \<Rightarrow> path \<Rightarrow> path \<Rightarrow> path" where
  "rekey src dst q = (if prefix src q then dst @ drop (length src) q else q)"

definition rename :: "fs \<Rightarrow> path \<Rightarrow> path \<Rightarrow> error + fs" where
  "rename fs src dst =
     (case lookup fs src of
        None \<Rightarrow> Inl FileNotFoundError
      | Some nd \<Rightarrow>
          (case lookup fs (butlast dst) of
             None \<Rightarrow> Inl FileNotFoundError
           | Some (File _ _ _) \<Rightarrow> Inl NotADirectoryError
           | Some (Dir w) \<Rightarrow>
               if \<not> w \<or> \<not> can_write fs (butlast src) then Inl PermissionError
               else if src = dst then Inr fs
               else (case nd of
                       File _ _ _ \<Rightarrow>
                         if is_dir fs dst then Inl IsADirectoryError
                         else Inr (AList.delete src (AList.delete dst fs) @ [(dst, nd)])
                     | Dir _ \<Rightarrow>
                         if is_file fs dst then Inl NotADirectoryError
                         else if is_dir fs dst \<and> iterdir fs dst \<noteq> [] then Inl DirectoryNotEmpty
                         else if prefix src dst then Inl InvalidArgument
                         else Inr (map (\<lambda>(q, n). (rekey src dst q, n)) (AList.delete dst fs)))))"

text \<open>\<^verbatim>\<open>p.rmdir()\<close>: removes an empty directory.\<close>

definition rmdir :: "fs \<Rightarrow> path \<Rightarrow> error + fs" where
  "rmdir fs p =
     (case lookup fs p of
        None \<Rightarrow> Inl FileNotFoundError
      | Some (File _ _ _) \<Rightarrow> Inl NotADirectoryError
      | Some (Dir _) \<Rightarrow>
          if iterdir fs p \<noteq> [] then Inl DirectoryNotEmpty
          else if p = [] \<or> \<not> can_write fs (butlast p) then Inl PermissionError
          else Inr (AList.delete p fs))"

text \<open>
  In a real file system the parent of every entry is a directory. The operations above are
  defined on every association list; where a property needs this, it is a hypothesis.
\<close>

definition well_formed :: "fs \<Rightarrow> bool" where
  "well_formed fs = list_all (\<lambda>(q, n). is_dir fs (butlast q)) fs"

text \<open>A file system in which every entry is a writable directory: no \<^verbatim>\<open>mkdir\<close> can fail.\<close>

definition all_writable :: "fs \<Rightarrow> bool" where
  "all_writable fs = list_all (\<lambda>(q, n). n = Dir True) fs"

section \<open>Recursive globbing\<close>

text \<open>
  \<^verbatim>\<open>p.rglob('*')\<close> is a generator: it lists a directory only when the loop that consumes it
  asks for the next path, so it sees what the loop body has done to the file system so far.
  pathlib walks top-down: for a directory it first yields every entry of the directory
  (\<open>Scan\<close>), then lists the directory again and walks each sub-directory in turn
  (\<open>Descend\<close>). The pending work of the generator is a list of tasks. This is the order of
  CPython up to 3.11; later versions visit sibling sub-trees in another order, and every
  version yields a directory before it lists what the directory holds.
\<close>

datatype task = Yield path | Scan path | Descend path

definition scan :: "fs \<Rightarrow> path \<Rightarrow> task list" where
  "scan fs p = map (\<lambda>n. Yield (p @ [n])) (iterdir fs p)"

definition descend :: "fs \<Rightarrow> path \<Rightarrow> task list" where
  "descend fs p =
     concat (map (\<lambda>n. [Scan (p @ [n]), Descend (p @ [n])])
                 (filter (\<lambda>n. is_dir fs (p @ [n])) (iterdir fs p)))"

text \<open>\<^verbatim>\<open>select_from\<close> yields nothing when the starting point is not a directory.\<close>

definition rglob :: "fs \<Rightarrow> path \<Rightarrow> task list" where
  "rglob fs p = (if is_dir fs p then [Scan p, Descend p] else [])"

section \<open>Termination of a walk\<close>

text \<open>
  A walk ends because every \<open>Descend\<close> replaces a directory by its sub-directories, of which
  there are finitely many, and the loop bodies below never add a directory. The weight of the
  pending tasks counts the directories still to be entered.
\<close>

definition below :: "fs \<Rightarrow> path \<Rightarrow> path set" where
  "below fs p = {q. strict_prefix p q \<and> is_dir fs q}"

definition dirs_below :: "fs \<Rightarrow> path \<Rightarrow> nat" where
  "dirs_below fs p = card (below fs p)"

lemma is_dir_key: "is_dir fs q \<Longrightarrow> q \<noteq> [] \<Longrightarrow> q \<in> fst ` set fs"
  by (auto simp: is_dir_def lookup_def split: option.splits node.splits dest: map_of_SomeD intro: rev_image_eqI)

lemma finite_below: "finite (below fs p)"
proof (rule finite_subset)
  show "below fs p \<subseteq> fst ` set fs"
    by (auto simp: below_def dest!: is_dir_key)
  show "finite (fst ` set fs)" by simp
qed

lemma distinct_iterdir: "distinct (iterdir fs p)"
  by (simp add: iterdir_def)

lemma below_child_subset: "is_dir fs (p @ [n]) \<Longrightarrow> insert (p @ [n]) (below fs (p @ [n])) \<subseteq> below fs p"
  by (auto simp: below_def strict_prefix_def prefix_def)

lemma below_child_disjoint:
  "n \<noteq> m \<Longrightarrow> insert (p @ [n]) (below fs (p @ [n])) \<inter> insert (p @ [m]) (below fs (p @ [m])) = {}"
  by (auto simp: below_def strict_prefix_def prefix_def append_eq_append_conv2 Cons_eq_append_conv)

lemma children_weight_aux:
  assumes "distinct ns" "\<forall>n \<in> set ns. is_dir fs (p @ [n])"
  shows "sum_list (map (\<lambda>n. Suc (dirs_below fs (p @ [n]))) ns)
           = card (\<Union>n \<in> set ns. insert (p @ [n]) (below fs (p @ [n])))"
proof -
  have "sum_list (map (\<lambda>n. Suc (dirs_below fs (p @ [n]))) ns)
          = (\<Sum>n \<in> set ns. Suc (dirs_below fs (p @ [n])))"
    using assms(1) by (simp add: sum_list_distinct_conv_sum_set)
  also have "\<dots> = (\<Sum>n \<in> set ns. card (insert (p @ [n]) (below fs (p @ [n]))))"
  proof (rule sum.cong)
    fix n
    have "p @ [n] \<notin> below fs (p @ [n])" by (simp add: below_def)
    then show "Suc (dirs_below fs (p @ [n])) = card (insert (p @ [n]) (below fs (p @ [n])))"
      by (simp add: dirs_below_def finite_below)
  qed simp
  also have "\<dots> = card (\<Union>n \<in> set ns. insert (p @ [n]) (below fs (p @ [n])))"
    by (rule card_UN_disjoint [symmetric]) (auto simp: finite_below below_child_disjoint)
  finally show ?thesis .
qed

lemma children_weight:
  "sum_list (map (\<lambda>n. Suc (dirs_below fs (p @ [n]))) (filter (\<lambda>n. is_dir fs (p @ [n])) (iterdir fs p)))
     \<le> dirs_below fs p"
proof -
  let ?ns = "filter (\<lambda>n. is_dir fs (p @ [n])) (iterdir fs p)"
  have "sum_list (map (\<lambda>n. Suc (dirs_below fs (p @ [n]))) ?ns)
          = card (\<Union>n \<in> set ?ns. insert (p @ [n]) (below fs (p @ [n])))"
    by (rule children_weight_aux) (auto simp: distinct_iterdir)
  also have "\<dots> \<le> card (below fs p)"
    by (rule card_mono) (use below_child_subset in \<open>auto simp: finite_below\<close>)
  finally show ?thesis by (simp add: dirs_below_def)
qed

fun task_weight :: "fs \<Rightarrow> task \<Rightarrow> nat" where
  "task_weight fs (Descend p) = Suc (dirs_below fs p)"
| "task_weight fs (Scan p) = 0"
| "task_weight fs (Yield p) = 0"

definition pending_weight :: "fs \<Rightarrow> task list \<Rightarrow> nat" where
  "pending_weight fs ts = sum_list (map (task_weight fs) ts)"

fun is_scan :: "task \<Rightarrow> bool" where
  "is_scan (Scan p) = True"
| "is_scan t = False"

lemma pending_weight_simps [simp]:
  "pending_weight fs [] = 0"
  "pending_weight fs (t # ts) = task_weight fs t + pending_weight fs ts"
  "pending_weight fs (ts @ us) = pending_weight fs ts + pending_weight fs us"
  by (simp_all add: pending_weight_def)

lemma pending_weight_scan [simp]: "pending_weight fs' (scan fs p) = 0"
  by (simp add: pending_weight_def scan_def comp_def)

lemma pending_weight_descend: "pending_weight fs (descend fs p) \<le> dirs_below fs p"
proof -
  have "pending_weight fs (concat (map (\<lambda>n. [Scan (p @ [n]), Descend (p @ [n])]) ns))
          = sum_list (map (\<lambda>n. Suc (dirs_below fs (p @ [n]))) ns)" for ns
    by (induction ns) simp_all
  then show ?thesis
    unfolding descend_def using children_weight [of fs p] by simp
qed

lemma pending_weight_mono:
  "(\<And>q. is_dir fs' q \<Longrightarrow> is_dir fs q) \<Longrightarrow> pending_weight fs' ts \<le> pending_weight fs ts"
proof (induction ts)
  case Nil then show ?case by simp
next
  case (Cons t ts)
  have "dirs_below fs' p \<le> dirs_below fs p" for p
    unfolding dirs_below_def
  proof (rule card_mono)
    show "finite (below fs p)" by (rule finite_below)
    show "below fs' p \<subseteq> below fs p" using Cons.prems by (auto simp: below_def)
  qed
  then have "task_weight fs' t \<le> task_weight fs t"
    by (cases t) simp_all
  with Cons show ?case by (simp add: add_mono)
qed

lemma lookup_delete: "lookup (AList.delete k fs) q = (if q = k \<and> q \<noteq> [] then None else lookup fs q)"
  by (simp add: lookup_def delete_conv')

lemma rmdir_is_dir: "rmdir fs p = Inr fs' \<Longrightarrow> is_dir fs' q \<Longrightarrow> is_dir fs q"
  by (auto simp: rmdir_def is_dir_def lookup_delete split: option.splits node.splits if_splits)

section \<open>Log lines\<close>

text \<open>Every call of the logger is an event appended to the log, in program order.\<close>

datatype event =
    Deleted path
  | NotEmptyOrNotDir path
  | FoundFile path
  | CreationTime datetime
  | ModifiedTime datetime
  | Moving path path
  | AlreadyExists path
  | ErrorMoving error
  | Organizing path
  | StartingFrom datetime
  | DirExists path
  | Creating path

section \<open>Empty Directory Pruner\<close>

text \<open>
  Lines 24 to 30. The body runs once for each path the generator yields. \<^verbatim>\<open>rmdir\<close> is not
  inside a \<^verbatim>\<open>try\<close>: an error it raises leaves the loop and the function.
\<close>

function clean_loop :: "fs \<Rightarrow> task list \<Rightarrow> event list \<Rightarrow> error option \<times> fs \<times> event list" where
  "clean_loop fs [] log = (None, fs, log)"
| "clean_loop fs (Scan p # ts) log = clean_loop fs (scan fs p @ ts) log"
| "clean_loop fs (Descend p # ts) log = clean_loop fs (descend fs p @ ts) log"
| "clean_loop fs (Yield subdir # ts) log =
     (if is_dir fs subdir \<and> iterdir fs subdir = [] then
        (case rmdir fs subdir of
           Inl e \<Rightarrow> (Some e, fs, log)
         | Inr fs' \<Rightarrow> clean_loop fs' ts (log @ [Deleted subdir]))
      else clean_loop fs ts (log @ [NotEmptyOrNotDir subdir]))"
  by pat_completeness auto
termination clean_loop
proof (relation "measures [\<lambda>(fs, ts, log). pending_weight fs ts,
                           \<lambda>(fs, ts, log). length (filter is_scan ts),
                           \<lambda>(fs, ts, log). length ts]", goal_cases)
  case 1
  show ?case by simp
next
  case (2 fs p ts log)
  have "\<not> is_scan t" if "t \<in> set (scan fs p)" for t
    using that by (auto simp: scan_def)
  then have "filter is_scan (scan fs p) = []"
    by (auto simp: filter_empty_conv)
  then show ?case by simp
next
  case (3 fs p ts log)
  show ?case using pending_weight_descend [of fs p] by simp
next
  case (4 fs subdir ts log x2)
  then have "pending_weight x2 ts \<le> pending_weight fs ts"
    by (intro pending_weight_mono) (auto dest: rmdir_is_dir)
  then show ?case by auto
next
  case (5 fs subdir ts log)
  show ?case by simp
qed

declare clean_loop.simps [simp del]

definition clean_folders :: "fs \<Rightarrow> path \<Rightarrow> error option \<times> fs \<times> event list" where
  "clean_folders fs folder = clean_loop fs (rglob fs folder) []"

section \<open>File Relocator\<close>

text \<open>
  Lines 60 to 64, the body of the \<^verbatim>\<open>try\<close>: its result is either the exception raised inside
  it or the new file system and the lines logged.
\<close>

definition try_move :: "fs \<Rightarrow> path \<Rightarrow> path \<Rightarrow> error + fs \<times> event list" where
  "try_move fs file_path destination_path =
     (if exists fs destination_path then Inr (fs, [AlreadyExists destination_path])
      else case rename fs file_path destination_path of
             Inl e \<Rightarrow> Inl e
           | Inr fs' \<Rightarrow> Inr (fs', []))"

text \<open>
  Lines 46 to 66, the loop body for one yielded path. \<open>localtime\<close> stands for
  \<^verbatim>\<open>datetime.fromtimestamp(t, tz=pytz.UTC).astimezone(pytz.timezone('America/Los_Angeles'))\<close>:
  the time-zone database is not part of the program, so the conversion is a parameter, the
  same one for every file and for both timestamps.
\<close>

definition move_file :: "(int \<Rightarrow> datetime) \<Rightarrow> path \<Rightarrow> fs \<Rightarrow> path \<Rightarrow> fs \<times> event list" where
  "move_file localtime folder fs file_path =
     (case lookup fs file_path of
        Some (File mtime ctime _) \<Rightarrow>
          (let creation_time = localtime ctime;
               modified_time = localtime mtime;
               target_directory = move_target folder modified_time;
               destination_path = target_directory @ [last file_path];
               log = [FoundFile file_path, CreationTime creation_time,
                      ModifiedTime modified_time, Moving file_path destination_path]
           in case try_move fs file_path destination_path of
                Inl e \<Rightarrow> (fs, log @ [ErrorMoving e])
              | Inr (fs', log') \<Rightarrow> (fs', log @ log'))
      | _ \<Rightarrow> (fs, []))"

function move_loop ::
  "(int \<Rightarrow> datetime) \<Rightarrow> path \<Rightarrow> fs \<Rightarrow> task list \<Rightarrow> event list \<Rightarrow> fs \<times> event list" where
  "move_loop localtime folder fs [] log = (fs, log)"
| "move_loop localtime folder fs (Scan p # ts) log =
     move_loop localtime folder fs (scan fs p @ ts) log"
| "move_loop localtime folder fs (Descend p # ts) log =
     move_loop localtime folder fs (descend fs p @ ts) log"
| "move_loop localtime folder fs (Yield file_path # ts) log =
     (case move_file localtime folder fs file_path of
        (fs', log') \<Rightarrow> move_loop localtime folder fs' ts (log @ log'))"
  by pat_completeness auto

lemma lookup_rename_file:
  assumes "rename fs src dst = Inr fs'" "lookup fs src = Some (File m c d)"
  shows "lookup fs' q =
           (if q = dst then Some (File m c d) else if q = src then None else lookup fs q)"
proof -
  have src: "src \<noteq> []" using assms(2) by (auto simp: lookup_def)
  have dst: "dst \<noteq> []" if "src \<noteq> dst"
    using assms that
    by (auto simp: rename_def is_dir_def lookup_def split: option.splits node.splits if_splits)
  show ?thesis
  proof (cases "src = dst")
    case True
    with assms show ?thesis
      by (auto simp: rename_def split: option.splits node.splits if_splits)
  next
    case False
    with assms have "fs' = AList.delete src (AList.delete dst fs) @ [(dst, File m c d)]"
      by (auto simp: rename_def split: option.splits node.splits if_splits)
    with False src dst show ?thesis
      by (auto simp: lookup_def map_add_def delete_conv' split: option.splits)
  qed
qed

lemma move_file_cases:
  assumes "move_file localtime folder fs p = (fs', evs)"
  shows "fs' = fs \<or>
         (\<exists>m c d. lookup fs p = Some (File m c d) \<and>
            \<not> exists fs (move_target folder (localtime m) @ [last p]) \<and>
            rename fs p (move_target folder (localtime m) @ [last p]) = Inr fs')"
  using assms
  by (auto simp: move_file_def try_move_def Let_def
           split: option.splits node.splits sum.splits if_splits)

lemma move_file_is_dir:
  assumes "move_file localtime folder fs p = (fs', evs)"
  shows "is_dir fs' q = is_dir fs q"
  using move_file_cases [OF assms]
proof (elim disjE exE conjE)
  fix m c d
  assume a: "lookup fs p = Some (File m c d)"
    "\<not> exists fs (move_target folder (localtime m) @ [last p])"
    "rename fs p (move_target folder (localtime m) @ [last p]) = Inr fs'"
  show ?thesis
    using a(1,2) by (auto simp: is_dir_def exists_def lookup_rename_file [OF a(3) a(1)])
qed simp

termination move_loop
proof (relation "measures [\<lambda>(lt, folder, fs, ts, log). pending_weight fs ts,
                           \<lambda>(lt, folder, fs, ts, log). length (filter is_scan ts),
                           \<lambda>(lt, folder, fs, ts, log). length ts]", goal_cases)
  case 1
  show ?case by simp
next
  case (2 localtime folder fs p ts log)
  have "\<not> is_scan t" if "t \<in> set (scan fs p)" for t
    using that by (auto simp: scan_def)
  then have "filter is_scan (scan fs p) = []"
    by (auto simp: filter_empty_conv)
  then show ?case by simp
next
  case (3 localtime folder fs p ts log)
  show ?case using pending_weight_descend [of fs p] by simp
next
  case (4 localtime folder fs file_path ts log fs' log')
  then have "move_file localtime folder fs file_path = (fs', log')"
    by simp
  then have "pending_weight fs' ts \<le> pending_weight fs ts"
    by (intro pending_weight_mono) (simp add: move_file_is_dir)
  then show ?case by auto
qed

declare move_loop.simps [simp del]

text \<open>Lines 43 to 45. \<^verbatim>\<open>read_target\<close> defaults to \<^verbatim>\<open>folder\<close>.\<close>

definition move_files ::
  "(int \<Rightarrow> datetime) \<Rightarrow> fs \<Rightarrow> path \<Rightarrow> path option \<Rightarrow> fs \<times> event list" where
  "move_files localtime fs folder read_target =
     (let read_target = (case read_target of None \<Rightarrow> folder | Some t \<Rightarrow> t)
      in move_loop localtime folder fs (rglob fs read_target) [])"

section \<open>Directory Skeleton Builder\<close>

text \<open>
  Lines 98 to 102 (the same at 138 to 142 and 180 to 184): create the bucket unless the path
  exists. An error of \<^verbatim>\<open>mkdir\<close> is not caught.
\<close>

definition make_bucket :: "fs \<Rightarrow> path \<Rightarrow> event list \<Rightarrow> error option \<times> fs \<times> event list" where
  "make_bucket fs target_directory log =
     (if exists fs target_directory then (None, fs, log @ [DirExists target_directory])
      else case mkdir fs target_directory of
             Inl e \<Rightarrow> (Some e, fs, log @ [Creating target_directory])
           | Inr fs' \<Rightarrow> (None, fs', log @ [Creating target_directory]))"

lemma days_in_month_le: "days_in_month y m \<le> 31"
  by (simp add: days_in_month_def)

lemma add_day_decreases:
  assumes "add_day d = Inr d'"
  shows "MAXYEAR - year d' < MAXYEAR - year d \<or>
         (year d' = year d \<and> (12 - month d' < 12 - month d \<or>
            (month d' = month d \<and> 31 - day d' < 31 - day d)))"
  using assms days_in_month_le [of "year d" "month d"]
  by (auto simp: add_day_def split: if_splits)

text \<open>Lines 96 to 103, the loop of \<^verbatim>\<open>all\<close>.\<close>

function all_loop ::
  "path \<Rightarrow> datetime \<Rightarrow> datetime \<Rightarrow> fs \<Rightarrow> event list \<Rightarrow> error option \<times> fs \<times> event list" where
  "all_loop folder today start fs log =
     (if dt_le start today then
        (case make_bucket fs (year_target folder start) log of
           (Some e, fs', log') \<Rightarrow> (Some e, fs', log')
         | (None, fs', log') \<Rightarrow>
             (case add_day start of
                Inl e \<Rightarrow> (Some e, fs', log')
              | Inr start' \<Rightarrow> all_loop folder today start' fs' log'))
      else (None, fs, log))"
  by pat_completeness auto
termination
  by (relation "measures [\<lambda>(folder, today, start, fs, log). MAXYEAR - year start,
                           \<lambda>(folder, today, start, fs, log). 12 - month start,
                           \<lambda>(folder, today, start, fs, log). 31 - day start]") (auto dest: add_day_decreases)

declare all_loop.simps [simp del]

text \<open>Lines 136 to 143, the loop of \<^verbatim>\<open>year\<close>. The value of \<^verbatim>\<open>start\<close> after the loop is used.\<close>

function year_loop ::
  "path \<Rightarrow> nat \<Rightarrow> datetime \<Rightarrow> fs \<Rightarrow> event list
     \<Rightarrow> error option \<times> datetime \<times> fs \<times> event list" where
  "year_loop folder next_year start fs log =
     (if year start < next_year then
        (case make_bucket fs (year_target folder start) log of
           (Some e, fs', log') \<Rightarrow> (Some e, start, fs', log')
         | (None, fs', log') \<Rightarrow>
             (case add_day start of
                Inl e \<Rightarrow> (Some e, start, fs', log')
              | Inr start' \<Rightarrow> year_loop folder next_year start' fs' log'))
      else (None, start, fs, log))"
  by pat_completeness auto
termination
  by (relation "measures [\<lambda>(folder, n, start, fs, log). MAXYEAR - year start,
                           \<lambda>(folder, n, start, fs, log). 12 - month start,
                           \<lambda>(folder, n, start, fs, log). 31 - day start]") (auto dest: add_day_decreases)

declare year_loop.simps [simp del]

text \<open>Lines 178 to 185, the loop of \<^verbatim>\<open>month\<close>.\<close>

function month_loop ::
  "path \<Rightarrow> nat \<Rightarrow> datetime \<Rightarrow> fs \<Rightarrow> event list
     \<Rightarrow> error option \<times> datetime \<times> fs \<times> event list" where
  "month_loop folder next_month start fs log =
     (if month start < next_month then
        (case make_bucket fs (month_target folder start) log of
           (Some e, fs', log') \<Rightarrow> (Some e, start, fs', log')
         | (None, fs', log') \<Rightarrow>
             (case add_day start of
                Inl e \<Rightarrow> (Some e, start, fs', log')
              | Inr start' \<Rightarrow> month_loop folder next_month start' fs' log'))
      else (None, start, fs, log))"
  by pat_completeness auto
termination
  by (relation "measures [\<lambda>(folder, n, start, fs, log). MAXYEAR - year start,
                           \<lambda>(folder, n, start, fs, log). 12 - month start,
                           \<lambda>(folder, n, start, fs, log). 31 - day start]") (auto dest: add_day_decreases)

declare month_loop.simps [simp del]

section \<open>The three commands\<close>

text \<open>
  \<open>now\<close> is the value of \<^verbatim>\<open>datetime.now()\<close>. typer has checked that \<open>folder\<close> is an existing
  directory before a command runs. A command returns the error that ended it, if any, the
  file system and the log.
\<close>

definition all_cmd ::
  "(int \<Rightarrow> datetime) \<Rightarrow> datetime \<Rightarrow> datetime \<Rightarrow> path \<Rightarrow> fs \<Rightarrow> error option \<times> fs \<times> event list" where
  "all_cmd localtime now start folder fs =
     (let start = start\<lparr>month := 1, day := 1, hour := 0, minute := 0, second := 0,
                        microsecond := 0\<rparr>;
          log = [Organizing folder, StartingFrom start];
          today = now\<lparr>hour := 0, minute := 0, second := 0, microsecond := 0\<rparr>
      in case all_loop folder today start fs log of
           (Some e, fs1, log1) \<Rightarrow> (Some e, fs1, log1)
         | (None, fs1, log1) \<Rightarrow>
             (case move_files localtime fs1 folder None of
                (fs2, log2) \<Rightarrow>
                  (case clean_folders fs2 folder of
                     (r, fs3, log3) \<Rightarrow> (r, fs3, log1 @ log2 @ log3))))"

definition year_cmd ::
  "(int \<Rightarrow> datetime) \<Rightarrow> datetime \<Rightarrow> path \<Rightarrow> fs \<Rightarrow> error option \<times> fs \<times> event list" where
  "year_cmd localtime start folder fs =
     (let start = start\<lparr>month := 1, day := 1, hour := 0, minute := 0, second := 0,
                        microsecond := 0\<rparr>;
          log = [Organizing folder, StartingFrom start];
          next_year = year start + 1
      in case year_loop folder next_year start fs log of
           (Some e, start, fs1, log1) \<Rightarrow> (Some e, fs1, log1)
         | (None, start, fs1, log1) \<Rightarrow>
             (case sub_day start of
                Inl e \<Rightarrow> (Some e, fs1, log1)
              | Inr start \<Rightarrow>
                  (let folder = folder @ [str_nat (year start)]
                   in case move_files localtime fs1 folder None of
                        (fs2, log2) \<Rightarrow>
                          (case clean_folders fs2 folder of
                             (r, fs3, log3) \<Rightarrow> (r, fs3, log1 @ log2 @ log3)))))"

definition month_cmd ::
  "(int \<Rightarrow> datetime) \<Rightarrow> datetime \<Rightarrow> path \<Rightarrow> fs \<Rightarrow> error option \<times> fs \<times> event list" where
  "month_cmd localtime start folder fs =
     (let start = start\<lparr>day := 1, hour := 0, minute := 0, second := 0, microsecond := 0\<rparr>;
          log = [Organizing folder, StartingFrom start];
          next_month = month start + 1
      in case month_loop folder next_month start fs log of
           (Some e, start, fs1, log1) \<Rightarrow> (Some e, fs1, log1)
         | (None, start, fs1, log1) \<Rightarrow>
             (case sub_day start of
                Inl e \<Rightarrow> (Some e, fs1, log1)
              | Inr start \<Rightarrow>
                  (case move_files localtime fs1 folder (Some (folder @ [month_abbrev start])) of
                     (fs2, log2) \<Rightarrow>
                       (case clean_folders fs2 (folder @ [month_abbrev start]) of
                          (r, fs3, log3) \<Rightarrow> (r, fs3, log1 @ log2 @ log3)))))"

section \<open>A concrete conversion for examples\<close>

text \<open>
  The examples below need some value for \<open>localtime\<close>. \<open>utc_minus_8\<close> is the conversion of
  a zone that is always eight hours behind UTC (Pacific Standard Time without daylight
  saving), with the usual day-number-to-date arithmetic of the proleptic Gregorian calendar.
\<close>

definition civil_from_days :: "int \<Rightarrow> nat \<times> nat \<times> nat" where
  "civil_from_days z0 =
     (let z = z0 + 719468;
          era = z div 146097;
          doe = z mod 146097;
          yoe = (doe - doe div 1460 + doe div 36524 - doe div 146096) div 365;
          doy = doe - (365 * yoe + yoe div 4 - yoe div 100);
          mp = (5 * doy + 2) div 153;
          d = doy - (153 * mp + 2) div 5 + 1;
          m = (if mp < 10 then mp + 3 else mp - 9);
          y = yoe + era * 400 + (if m \<le> 2 then 1 else 0)
      in (nat y, nat m, nat d))"

definition utc_minus_8 :: "int \<Rightarrow> datetime" where
  "utc_minus_8 t =
     (let s = t - 8 * 3600;
          secs = s mod 86400
      in case civil_from_days (s div 86400) of
           (y, m, d) \<Rightarrow>
             \<lparr>year = y, month = m, day = d, hour = nat (secs div 3600),
              minute = nat ((secs mod 3600) div 60), second = nat (secs mod 60),
              microsecond = 0\<rparr>)"

section \<open>Notions used to state the claims\<close>

text \<open>
  \<open>forget_ctime\<close> erases every creation timestamp of a file system, and \<open>other_lines\<close>
  drops the "Creation time" lines of a log: two runs that agree up to these differ in
  nothing but creation times.
\<close>

fun forget_node :: "node \<Rightarrow> node" where
  "forget_node (File m c d) = File m 0 d"
| "forget_node (Dir w) = Dir w"

definition forget_ctime :: "fs \<Rightarrow> fs" where
  "forget_ctime fs = map (\<lambda>(q, n). (q, forget_node n)) fs"

fun is_creation_time :: "event \<Rightarrow> bool" where
  "is_creation_time (CreationTime t) = True"
| "is_creation_time e = False"

definition other_lines :: "event list \<Rightarrow> event list" where
  "other_lines log = filter (\<lambda>e. \<not> is_creation_time e) log"

text \<open>
  A file is in its bucket when it sits at the destination path the relocator computes for
  it. \<open>all_in_buckets\<close> says so of every file below the read target.
\<close>

definition in_bucket :: "(int \<Rightarrow> datetime) \<Rightarrow> path \<Rightarrow> fs \<Rightarrow> path \<Rightarrow> bool" where
  "in_bucket localtime folder fs p =
     (case lookup fs p of
        Some (File m _ _) \<Rightarrow> move_target folder (localtime m) @ [last p] = p
      | _ \<Rightarrow> False)"

definition all_in_buckets :: "(int \<Rightarrow> datetime) \<Rightarrow> path \<Rightarrow> path \<Rightarrow> fs \<Rightarrow> bool" where
  "all_in_buckets localtime folder read_target fs =
     list_all (\<lambda>(q, n). prefix read_target q \<and> is_file fs q \<longrightarrow> in_bucket localtime folder fs q) fs"

fun task_path :: "task \<Rightarrow> path" where
  "task_path (Yield p) = p"
| "task_path (Scan p) = p"
| "task_path (Descend p) = p"

text \<open>
  The calendar date of a datetime, ordered lexicographically, and the datetimes whose time
  of day is zero (what \<^verbatim>\<open>replace(hour=0, minute=0, second=0, microsecond=0)\<close> returns).
\<close>

definition date_of :: "datetime \<Rightarrow> nat \<times> nat \<times> nat" where
  "date_of d = (year d, month d, day d)"

definition midnight :: "datetime \<Rightarrow> bool" where
  "midnight d = (hour d = 0 \<and> minute d = 0 \<and> second d = 0 \<and> microsecond d = 0)"

text \<open>
  \<open>extends fs fs'\<close>: every path of \<open>fs\<close> is unchanged in \<open>fs'\<close>, and a path that is new in
  \<open>fs'\<close> is a directory. This is how creating directories changes a file system.
\<close>

definition extends :: "fs \<Rightarrow> fs \<Rightarrow> bool" where
  "extends fs fs' =
     (\<forall>q. if exists fs q then lookup fs' q = lookup fs q else (exists fs' q \<longrightarrow> is_dir fs' q))"

section \<open>Basic facts\<close>

lemmas fs_eval = lookup_def exists_def is_file_def is_dir_def can_write_def iterdir_def
  rmdir_def rename_def os_mkdir_def scan_def descend_def rglob_def AList.delete_eq

lemma well_formed_parent: "well_formed fs \<Longrightarrow> exists fs q \<Longrightarrow> is_dir fs (butlast q)"
proof (cases "q = []")
  case True
  then show ?thesis by (simp add: is_dir_def lookup_def)
next
  case False
  assume "well_formed fs" "exists fs q"
  with False obtain n where "(q, n) \<in> set fs"
    by (auto simp: exists_def lookup_def dest: map_of_SomeD)
  with \<open>well_formed fs\<close> show ?thesis
    by (auto simp: well_formed_def list_all_iff)
qed

lemma move_loop_is_dir: "is_dir (fst (move_loop localtime folder fs ts log)) q = is_dir fs q"
proof (induction localtime folder fs ts log rule: move_loop.induct)
  case (4 localtime folder fs file_path ts log)
  obtain fs' log' where mf: "move_file localtime folder fs file_path = (fs', log')"
    by (cases "move_file localtime folder fs file_path")
  with 4 have "is_dir (fst (move_loop localtime folder fs' ts (log @ log'))) q = is_dir fs' q"
    by simp
  with mf show ?case
    by (simp add: move_loop.simps move_file_is_dir [OF mf])
qed (simp_all add: move_loop.simps)

lemma move_file_conflict:
  assumes "lookup fs file_path = Some (File m c d)"
    and "exists fs (move_target folder (localtime m) @ [last file_path])"
  shows "move_file localtime folder fs file_path =
           (fs, [FoundFile file_path, CreationTime (localtime c), ModifiedTime (localtime m),
                 Moving file_path (move_target folder (localtime m) @ [last file_path]),
                 AlreadyExists (move_target folder (localtime m) @ [last file_path])])"
  using assms by (simp add: move_file_def try_move_def Let_def)

lemma move_file_failure:
  assumes "lookup fs file_path = Some (File m c d)"
    and "\<not> exists fs (move_target folder (localtime m) @ [last file_path])"
    and "rename fs file_path (move_target folder (localtime m) @ [last file_path]) = Inl e"
  shows "move_file localtime folder fs file_path =
           (fs, [FoundFile file_path, CreationTime (localtime c), ModifiedTime (localtime m),
                 Moving file_path (move_target folder (localtime m) @ [last file_path]),
                 ErrorMoving e])"
  using assms by (simp add: move_file_def try_move_def Let_def)

lemma rename_missing_bucket:
  assumes "lookup fs src = Some (File m c d)" "\<not> exists fs (butlast dst)"
  shows "rename fs src dst = Inl FileNotFoundError"
  using assms by (simp add: rename_def exists_def)

subsection \<open>Creating directories\<close>

lemma all_writable_lookup: "all_writable fs \<Longrightarrow> lookup fs q = Some n \<Longrightarrow> n = Dir True"
  by (auto simp: all_writable_def lookup_def list_all_iff split: if_splits dest!: map_of_SomeD)

lemma os_mkdir_result:
  assumes "os_mkdir fs p = Inr fs'"
  shows "fs' = fs @ [(p, Dir True)] \<and> \<not> exists fs p \<and> p \<noteq> []"
  using assms by (auto simp: os_mkdir_def exists_def lookup_def split: if_splits option.splits node.splits)

lemma lookup_append_new:
  "\<not> exists fs p \<Longrightarrow> lookup (fs @ [(p, n)]) q = (if q = p then Some n else lookup fs q)"
  by (auto simp: lookup_def exists_def map_add_def split: option.splits)

lemma os_mkdir_lookup:
  assumes "os_mkdir fs p = Inr fs'"
  shows "lookup fs' q = (if q = p then Some (Dir True) else lookup fs q)"
  using os_mkdir_result [OF assms] by (simp add: lookup_append_new)

lemma mkdir_created: "os_mkdir fs p = Inr fs1 \<Longrightarrow> mkdir fs p = Inr fs1"
  by (subst mkdir.simps) simp

lemma mkdir_other_error:
  "os_mkdir fs p = Inl e \<Longrightarrow> e \<noteq> FileNotFoundError \<Longrightarrow>
     mkdir fs p = (if is_dir fs p then Inr fs else Inl e)"
  by (subst mkdir.simps) simp

lemma mkdir_missing_parent:
  "os_mkdir fs p = Inl FileNotFoundError \<Longrightarrow> p \<noteq> [] \<Longrightarrow>
     mkdir fs p =
       (case mkdir fs (butlast p) of
          Inl e' \<Rightarrow> Inl e'
        | Inr fs1 \<Rightarrow>
            (case os_mkdir fs1 p of
               Inr fs2 \<Rightarrow> Inr fs2
             | Inl e2 \<Rightarrow>
                 if e2 = FileNotFoundError then Inl e2
                 else if is_dir fs1 p then Inr fs1 else Inl e2))"
  by (subst mkdir.simps) simp

lemma mkdir_root: "mkdir fs [] = Inr fs"
  by (subst mkdir.simps) (simp add: os_mkdir_def exists_def lookup_def is_dir_def)

lemma mkdir_lookup:
  "mkdir fs p = Inr fs' \<Longrightarrow> is_dir fs' p \<and> (\<forall>q. exists fs q \<longrightarrow> lookup fs' q = lookup fs q)"
proof (induction fs p arbitrary: fs' rule: mkdir.induct)
  case (1 fs p)
  show ?case
  proof (cases "os_mkdir fs p")
    case (Inr fs1)
    with "1.prems" have "fs' = fs1" by (simp add: mkdir_created)
    with Inr show ?thesis
      using os_mkdir_lookup [OF Inr] os_mkdir_result [OF Inr]
      by (auto simp: is_dir_def exists_def)
  next
    case (Inl e)
    show ?thesis
    proof (cases "e = FileNotFoundError")
      case False
      with Inl "1.prems" show ?thesis
        by (auto simp: mkdir_other_error split: if_splits)
    next
      case True
      have p: "p \<noteq> []"
        using Inl True by (auto simp: os_mkdir_def exists_def lookup_def)
      from True Inl "1.prems" p obtain fs1 where
        par: "mkdir fs (butlast p) = Inr fs1"
        by (auto simp: mkdir_missing_parent split: sum.splits)
      have ih: "is_dir fs1 (butlast p)" "\<And>q. exists fs q \<Longrightarrow> lookup fs1 q = lookup fs q"
        using "1.IH" [OF Inl True p par] by auto
      show ?thesis
      proof (cases "os_mkdir fs1 p")
        case (Inr fs2)
        with True Inl "1.prems" p par have "fs' = fs2" by (simp add: mkdir_missing_parent)
        with Inr ih show ?thesis
          using os_mkdir_lookup [OF Inr] os_mkdir_result [OF Inr]
          by (auto simp: is_dir_def exists_def)
      next
        case e2: (Inl e2)
        with True Inl "1.prems" p par have "fs' = fs1" "is_dir fs1 p"
          by (auto simp: mkdir_missing_parent split: if_splits)
        with ih show ?thesis by simp
      qed
    qed
  qed
qed

lemma all_writable_append: "all_writable fs \<Longrightarrow> all_writable (fs @ [(p, Dir True)])"
  by (simp add: all_writable_def)

lemma os_mkdir_all_writable:
  assumes "all_writable fs"
  shows "os_mkdir fs p = Inl FileExistsError \<and> is_dir fs p
         \<or> os_mkdir fs p = Inl FileNotFoundError \<and> \<not> is_dir fs (butlast p) \<and> p \<noteq> []
         \<or> os_mkdir fs p = Inr (fs @ [(p, Dir True)])"
proof (cases "lookup fs p")
  case (Some n)
  then have "n = Dir True" using assms by (rule all_writable_lookup [rotated])
  with Some show ?thesis by (simp add: os_mkdir_def exists_def is_dir_def)
next
  case None
  then have p: "p \<noteq> []" by (auto simp: lookup_def)
  show ?thesis
  proof (cases "lookup fs (butlast p)")
    case n: None
    with None p show ?thesis by (simp add: os_mkdir_def exists_def is_dir_def)
  next
    case (Some n)
    then have "n = Dir True" using assms by (rule all_writable_lookup [rotated])
    with Some None show ?thesis by (simp add: os_mkdir_def exists_def)
  qed
qed

lemma mkdir_all_writable:
  "all_writable fs \<Longrightarrow> \<exists>fs'. mkdir fs p = Inr fs' \<and> all_writable fs'"
proof (induction fs p rule: mkdir.induct)
  case (1 fs p)
  from os_mkdir_all_writable [OF "1.prems", of p] show ?case
  proof (elim disjE conjE)
    assume "os_mkdir fs p = Inl FileExistsError" "is_dir fs p"
    with "1.prems" show ?thesis by (simp add: mkdir_other_error)
  next
    assume "os_mkdir fs p = Inr (fs @ [(p, Dir True)])"
    with "1.prems" show ?thesis by (simp add: mkdir_created all_writable_append)
  next
    assume a: "os_mkdir fs p = Inl FileNotFoundError" "p \<noteq> []"
    from "1.IH" [OF a(1) refl a(2) "1.prems"] obtain fs1 where
      par: "mkdir fs (butlast p) = Inr fs1" "all_writable fs1" by blast
    have dir: "is_dir fs1 (butlast p)" using mkdir_lookup [OF par(1)] by simp
    from os_mkdir_all_writable [OF par(2), of p] dir
    have "os_mkdir fs1 p = Inl FileExistsError \<and> is_dir fs1 p
          \<or> os_mkdir fs1 p = Inr (fs1 @ [(p, Dir True)])" by auto
    with a par show ?thesis
      by (auto simp: mkdir_missing_parent all_writable_append)
  qed
qed

lemma make_bucket_all_writable:
  assumes "all_writable fs"
  shows "\<exists>fs' e. make_bucket fs t log = (None, fs', log @ [e]) \<and> all_writable fs'
           \<and> (e = DirExists t \<or> e = Creating t)"
  using assms mkdir_all_writable [OF assms, of t]
  by (auto simp: make_bucket_def)

lemma days_in_month_ge: "28 \<le> days_in_month y m"
  by (simp add: days_in_month_def)

lemma days_in_december: "days_in_month y 12 = 31"
  by (simp add: days_in_month_def)

lemma add_day_valid:
  assumes "valid_date d" "add_day d = Inr d'"
  shows "valid_date d'"
proof -
  consider (day) "day d < days_in_month (year d) (month d)"
    | (month) "\<not> day d < days_in_month (year d) (month d)" "month d < 12"
    | (year) "\<not> day d < days_in_month (year d) (month d)" "\<not> month d < 12" "year d < MAXYEAR"
    using assms(2) by (auto simp: add_day_def split: if_splits)
  then show ?thesis
  proof cases
    case day
    with assms have "d' = d\<lparr>day := day d + 1\<rparr>" by (simp add: add_day_def)
    with day assms(1) show ?thesis by (simp add: valid_date_def)
  next
    case month
    with assms have "d' = d\<lparr>month := month d + 1, day := 1\<rparr>" by (simp add: add_day_def)
    with month assms(1) days_in_month_ge [of "year d" "month d + 1"] show ?thesis
      by (simp add: valid_date_def)
  next
    case year
    with assms have "d' = d\<lparr>year := year d + 1, month := 1, day := 1\<rparr>"
      by (simp add: add_day_def)
    with year assms(1) days_in_month_ge [of "year d + 1" 1] show ?thesis
      by (simp add: valid_date_def)
  qed
qed

lemma add_day_overflow:
  assumes "valid_date d" "add_day d = Inl e"
  shows "e = OverflowError \<and> year d = 9999 \<and> month d = 12 \<and> day d = 31"
proof -
  have c: "\<not> day d < days_in_month (year d) (month d)" "\<not> month d < 12" "\<not> year d < MAXYEAR"
    and e: "e = OverflowError"
    using assms(2) by (auto simp: add_day_def split: if_splits)
  from c(2) assms(1) have m: "month d = 12" by (simp add: valid_date_def)
  with c(1) assms(1) have "day d = 31" by (simp add: valid_date_def days_in_december)
  moreover from c(3) assms(1) have "year d = 9999" by (simp add: valid_date_def MAXYEAR_def)
  ultimately show ?thesis using m e by simp
qed

lemma month_loop_december:
  "valid_date start \<Longrightarrow> all_writable fs \<Longrightarrow>
   \<exists>start' fs' log'. month_loop folder 13 start fs log = (Some OverflowError, start', fs', log')
      \<and> year start' = 9999 \<and> month start' = 12 \<and> day start' = 31"
proof (induction folder "13::nat" start fs log rule: month_loop.induct)
  case (1 folder start fs log)
  have m: "month start < 13" using "1.prems"(1) by (simp add: valid_date_def)
  obtain fs' log' where mb: "make_bucket fs (month_target folder start) log = (None, fs', log')"
    and w: "all_writable fs'"
    using make_bucket_all_writable [OF "1.prems"(2)] by blast
  show ?case
  proof (cases "add_day start")
    case (Inl e)
    with m mb add_day_overflow [OF "1.prems"(1) Inl] show ?thesis
      by (subst month_loop.simps) simp
  next
    case (Inr start')
    have "valid_date start'" using "1.prems"(1) Inr by (rule add_day_valid)
    from "1.hyps" [OF m mb [symmetric] refl refl Inr this w] m mb Inr show ?thesis
      by (subst month_loop.simps) simp
  qed
qed

lemma month_loop_within_month:
  assumes "valid_date start" "month start < 12" "all_writable fs"
  shows "\<exists>fs' evs. month_loop folder (month start + 1) start fs log
             = (None, start\<lparr>month := month start + 1, day := 1\<rparr>, fs', log @ evs)
           \<and> length evs = days_in_month (year start) (month start) + 1 - day start"
  using assms
proof (induction "days_in_month (year start) (month start) - day start" arbitrary: start fs log)
  case 0
  obtain fs' e where mb: "make_bucket fs (month_target folder start) log = (None, fs', log @ [e])"
    using make_bucket_all_writable [OF "0.prems"(3)] by blast
  have d: "day start = days_in_month (year start) (month start)"
    using 0 by (simp add: valid_date_def)
  then have ad: "add_day start = Inr (start\<lparr>month := month start + 1, day := 1\<rparr>)"
    using "0.prems"(2) by (simp add: add_day_def)
  have stop: "month_loop folder (month start + 1) (start\<lparr>month := month start + 1, day := 1\<rparr>) fs' l
          = (None, start\<lparr>month := month start + 1, day := 1\<rparr>, fs', l)" for l
    by (subst month_loop.simps) simp
  have "month_loop folder (month start + 1) start fs log
          = (None, start\<lparr>month := month start + 1, day := 1\<rparr>, fs', log @ [e])"
    using mb ad stop [of "log @ [e]"] by (subst month_loop.simps) simp
  moreover have "length [e] = days_in_month (year start) (month start) + 1 - day start"
    using d by simp
  ultimately show ?case by blast
next
  case (Suc n)
  obtain fs' e where mb: "make_bucket fs (month_target folder start) log = (None, fs', log @ [e])"
    and w: "all_writable fs'"
    using make_bucket_all_writable [OF Suc.prems(3)] by blast
  have d: "day start < days_in_month (year start) (month start)"
    using Suc.hyps(2) by simp
  let ?next = "start\<lparr>day := day start + 1\<rparr>"
  have ad: "add_day start = Inr ?next"
    using d by (simp add: add_day_def)
  have v: "valid_date ?next" using Suc.prems(1) ad by (rule add_day_valid)
  have "n = days_in_month (year ?next) (month ?next) - day ?next"
    using Suc.hyps(2) by simp
  from Suc.hyps(1) [OF this v _ w, of "log @ [e]"] Suc.prems(2)
  obtain fs'' evs where
    r: "month_loop folder (month start + 1) ?next fs' (log @ [e])
          = (None, start\<lparr>month := month start + 1, day := 1\<rparr>, fs'', (log @ [e]) @ evs)"
    and l: "length evs = days_in_month (year start) (month start) + 1 - (day start + 1)"
    by auto
  have "month_loop folder (month start + 1) start fs log
          = (None, start\<lparr>month := month start + 1, day := 1\<rparr>, fs'', log @ (e # evs))"
    using mb ad r by (subst month_loop.simps) simp
  moreover have "length (e # evs) = days_in_month (year start) (month start) + 1 - day start"
    using l d by simp
  ultimately show ?case by blast
qed

subsection \<open>Creation times\<close>

lemma lookup_forget: "lookup (forget_ctime fs) q = map_option forget_node (lookup fs q)"
  by (simp add: lookup_def forget_ctime_def map_of_map)

lemma exists_forget [simp]: "exists (forget_ctime fs) q = exists fs q"
  by (simp add: exists_def lookup_forget)

lemma is_dir_forget [simp]: "is_dir (forget_ctime fs) q = is_dir fs q"
  by (cases "lookup fs q"; cases "the (lookup fs q)") (simp_all add: is_dir_def lookup_forget)

lemma is_file_forget [simp]: "is_file (forget_ctime fs) q = is_file fs q"
  by (cases "lookup fs q"; cases "the (lookup fs q)") (simp_all add: is_file_def lookup_forget)

lemma can_write_forget [simp]: "can_write (forget_ctime fs) q = can_write fs q"
  by (cases "lookup fs q"; cases "the (lookup fs q)") (simp_all add: can_write_def lookup_forget)

lemma keys_forget: "map fst (forget_ctime fs) = map fst fs"
  by (simp add: forget_ctime_def comp_def case_prod_unfold)

lemma iterdir_forget [simp]: "iterdir (forget_ctime fs) p = iterdir fs p"
  by (simp add: iterdir_def keys_forget)

lemma scan_forget [simp]: "scan (forget_ctime fs) p = scan fs p"
  by (simp add: scan_def)

lemma descend_forget [simp]: "descend (forget_ctime fs) p = descend fs p"
  by (simp add: descend_def)

lemma rglob_forget [simp]: "rglob (forget_ctime fs) p = rglob fs p"
  by (simp add: rglob_def)

lemma delete_forget: "AList.delete k (forget_ctime fs) = forget_ctime (AList.delete k fs)"
  by (induction fs) (auto simp: forget_ctime_def)

lemma forget_append: "forget_ctime (xs @ ys) = forget_ctime xs @ forget_ctime ys"
  by (simp add: forget_ctime_def)

lemma rekey_forget:
  "map (\<lambda>(q, n). (f q, n)) (forget_ctime fs) = forget_ctime (map (\<lambda>(q, n). (f q, n)) fs)"
  by (induction fs) (auto simp: forget_ctime_def)

lemma rename_forget:
  "rename (forget_ctime fs) src dst = map_sum id forget_ctime (rename fs src dst)"
proof (cases "lookup fs src")
  case None
  then show ?thesis by (simp add: rename_def lookup_forget)
next
  case (Some nd)
  show ?thesis
  proof (cases "lookup fs (butlast dst)")
    case None
    with Some show ?thesis by (simp add: rename_def lookup_forget)
  next
    case par: (Some pn)
    show ?thesis
    proof (cases pn)
      case (File m c d)
      with Some par show ?thesis by (simp add: rename_def lookup_forget)
    next
      case (Dir w)
      show ?thesis
      proof (cases nd)
        case (File m c d)
        with Some par Dir show ?thesis
          by (simp add: rename_def lookup_forget delete_forget forget_append)
            (simp add: forget_ctime_def)
      next
        case d2: (Dir w2)
        with Some par Dir show ?thesis
          by (simp add: rename_def lookup_forget delete_forget rekey_forget)
      qed
    qed
  qed
qed

lemma try_move_forget:
  "try_move (forget_ctime fs) p dst =
     map_sum id (\<lambda>(fs', evs). (forget_ctime fs', evs)) (try_move fs p dst)"
  by (cases "rename fs p dst") (simp_all add: try_move_def rename_forget)

lemma move_file_forget:
  "fst (move_file localtime folder (forget_ctime fs) p)
     = forget_ctime (fst (move_file localtime folder fs p))
   \<and> other_lines (snd (move_file localtime folder (forget_ctime fs) p))
     = other_lines (snd (move_file localtime folder fs p))"
proof (cases "lookup fs p")
  case None
  then show ?thesis by (simp add: move_file_def lookup_forget)
next
  case (Some nd)
  show ?thesis
  proof (cases nd)
    case (Dir w)
    with Some show ?thesis by (simp add: move_file_def lookup_forget)
  next
    case (File m c d)
    show ?thesis
    proof (cases "try_move fs p (move_target folder (localtime m) @ [last p])")
      case (Inl e)
      with Some File show ?thesis
        by (simp add: move_file_def lookup_forget try_move_forget Let_def other_lines_def)
    next
      case (Inr r)
      with Some File show ?thesis
        by (cases r) (simp add: move_file_def lookup_forget try_move_forget Let_def other_lines_def)
    qed
  qed
qed

lemma move_loop_forget:
  "other_lines log2 = other_lines log \<Longrightarrow>
   fst (move_loop localtime folder (forget_ctime fs) ts log2)
     = forget_ctime (fst (move_loop localtime folder fs ts log))
   \<and> other_lines (snd (move_loop localtime folder (forget_ctime fs) ts log2))
     = other_lines (snd (move_loop localtime folder fs ts log))"
proof (induction localtime folder fs ts log arbitrary: log2 rule: move_loop.induct)
  case (1 localtime folder fs log)
  then show ?case by (simp add: move_loop.simps)
next
  case (2 localtime folder fs p ts log)
  from 2(1) [OF 2(2)] show ?case by (simp add: move_loop.simps)
next
  case (3 localtime folder fs p ts log)
  from 3(1) [OF 3(2)] show ?case by (simp add: move_loop.simps)
next
  case (4 localtime folder fs file_path ts log)
  obtain fs' evs where mf: "move_file localtime folder fs file_path = (fs', evs)"
    by (cases "move_file localtime folder fs file_path")
  obtain fs2 evs2 where mf2: "move_file localtime folder (forget_ctime fs) file_path = (fs2, evs2)"
    by (cases "move_file localtime folder (forget_ctime fs) file_path")
  from move_file_forget [of localtime folder fs file_path] mf mf2
  have eq: "fs2 = forget_ctime fs'" "other_lines evs2 = other_lines evs" by simp_all
  have "other_lines (log2 @ evs2) = other_lines (log @ evs)"
    using eq(2) "4.prems" by (simp add: other_lines_def)
  from "4.IH" [OF mf [symmetric] this] mf mf2 eq(1) show ?case
    by (simp add: move_loop.simps)
qed

lemma move_files_forget:
  "fst (move_files localtime (forget_ctime fs) folder rt)
     = forget_ctime (fst (move_files localtime fs folder rt))
   \<and> other_lines (snd (move_files localtime (forget_ctime fs) folder rt))
     = other_lines (snd (move_files localtime fs folder rt))"
  using move_loop_forget [of "[]" "[]"] by (simp add: move_files_def Let_def)

subsection \<open>Files in their bucket\<close>

lemma in_bucket_cong:
  "lookup fs' d = lookup fs d \<Longrightarrow> in_bucket localtime folder fs' d = in_bucket localtime folder fs d"
  by (simp add: in_bucket_def)

lemma in_bucket_is_file: "in_bucket localtime folder fs d \<Longrightarrow> is_file fs d"
  by (auto simp: in_bucket_def is_file_def split: option.splits node.splits)

lemma all_in_buckets_D:
  assumes "all_in_buckets localtime folder rt fs" "is_file fs q" "prefix rt q"
  shows "in_bucket localtime folder fs q"
proof -
  from assms(2) obtain n where "(q, n) \<in> set fs"
    by (auto simp: is_file_def lookup_def split: if_splits option.splits node.splits
             dest: map_of_SomeD)
  with assms show ?thesis
    by (auto simp: all_in_buckets_def list_all_iff)
qed

lemma move_file_in_bucket:
  assumes "in_bucket localtime folder fs p"
  shows "\<exists>evs. move_file localtime folder fs p = (fs, evs) \<and> (\<forall>e. ErrorMoving e \<notin> set evs)"
proof -
  from assms obtain m c d where f: "lookup fs p = Some (File m c d)"
    and t: "move_target folder (localtime m) @ [last p] = p"
    by (auto simp: in_bucket_def split: option.splits node.splits)
  then have "exists fs (move_target folder (localtime m) @ [last p])"
    by (simp add: exists_def)
  with f show ?thesis by (simp add: move_file_conflict)
qed

lemma move_file_not_file:
  "\<not> is_file fs p \<Longrightarrow> move_file localtime folder fs p = (fs, [])"
  by (auto simp: move_file_def is_file_def split: option.splits node.splits)

lemma move_file_keeps_bucket:
  assumes "move_file localtime folder fs p = (fs', evs)" "in_bucket localtime folder fs d"
  shows "lookup fs' d = lookup fs d"
  using move_file_cases [OF assms(1)]
proof (elim disjE exE conjE)
  fix m c dat
  assume a: "lookup fs p = Some (File m c dat)"
    "\<not> exists fs (move_target folder (localtime m) @ [last p])"
    "rename fs p (move_target folder (localtime m) @ [last p]) = Inr fs'"
  have "d \<noteq> move_target folder (localtime m) @ [last p]"
    using a(2) in_bucket_is_file [OF assms(2)]
    by (auto simp: exists_def is_file_def split: option.splits)
  moreover have "d \<noteq> p"
  proof
    assume "d = p"
    with assms(2) a(1) have "move_target folder (localtime m) @ [last p] = p"
      by (simp add: in_bucket_def)
    with a(1,2) show False by (simp add: exists_def)
  qed
  ultimately show ?thesis
    by (simp add: lookup_rename_file [OF a(3) a(1)])
qed simp

lemma move_file_arrival:
  assumes "move_file localtime folder fs p = (fs', evs)"
    and "is_file fs' d" "lookup fs' d \<noteq> lookup fs d"
  shows "in_bucket localtime folder fs' d"
  using move_file_cases [OF assms(1)]
proof (elim disjE exE conjE)
  assume "fs' = fs"
  with assms(3) show ?thesis by simp
next
  fix m c dat
  assume a: "lookup fs p = Some (File m c dat)"
    "\<not> exists fs (move_target folder (localtime m) @ [last p])"
    "rename fs p (move_target folder (localtime m) @ [last p]) = Inr fs'"
  note l = lookup_rename_file [OF a(3) a(1)]
  from assms(2,3) have "d = move_target folder (localtime m) @ [last p]"
    by (auto simp: l is_file_def split: if_splits)
  then show ?thesis
    by (simp add: in_bucket_def l)
qed

lemma move_loop_keeps_bucket:
  "in_bucket localtime folder fs d \<Longrightarrow>
     lookup (fst (move_loop localtime folder fs ts log)) d = lookup fs d"
proof (induction localtime folder fs ts log rule: move_loop.induct)
  case (4 localtime folder fs file_path ts log)
  obtain fs' evs where mf: "move_file localtime folder fs file_path = (fs', evs)"
    by (cases "move_file localtime folder fs file_path")
  have k: "lookup fs' d = lookup fs d"
    using mf "4.prems" by (rule move_file_keeps_bucket)
  have "in_bucket localtime folder fs' d"
    using "4.prems" in_bucket_cong [OF k, of localtime folder] by simp
  from "4.IH" [OF mf [symmetric] this] mf k show ?case
    by (simp add: move_loop.simps)
qed (simp_all add: move_loop.simps)

lemma move_loop_arrival:
  "is_file (fst (move_loop localtime folder fs ts log)) d \<Longrightarrow>
   lookup (fst (move_loop localtime folder fs ts log)) d \<noteq> lookup fs d \<Longrightarrow>
     in_bucket localtime folder (fst (move_loop localtime folder fs ts log)) d"
proof (induction localtime folder fs ts log rule: move_loop.induct)
  case (4 localtime folder fs file_path ts log)
  obtain fs' evs where mf: "move_file localtime folder fs file_path = (fs', evs)"
    by (cases "move_file localtime folder fs file_path")
  let ?end = "fst (move_loop localtime folder fs' ts (log @ evs))"
  have e: "fst (move_loop localtime folder fs (Yield file_path # ts) log) = ?end"
    using mf by (simp add: move_loop.simps)
  show ?case
  proof (cases "lookup ?end d = lookup fs' d")
    case False
    with "4.IH" [OF mf [symmetric]] "4.prems"(1) e show ?thesis by simp
  next
    case True
    with "4.prems" e have "is_file fs' d" "lookup fs' d \<noteq> lookup fs d"
      by (simp_all add: is_file_def)
    with mf have "in_bucket localtime folder fs' d" by (rule move_file_arrival)
    with e in_bucket_cong [OF True, of localtime folder] show ?thesis by simp
  qed
qed (simp_all add: move_loop.simps)

lemma move_loop_all_in_buckets:
  assumes "all_in_buckets localtime folder rt fs"
  shows "\<forall>t \<in> set ts. prefix rt (task_path t) \<Longrightarrow>
     fst (move_loop localtime folder fs ts log) = fs \<and>
     (\<forall>e. ErrorMoving e \<in> set (snd (move_loop localtime folder fs ts log))
            \<longrightarrow> ErrorMoving e \<in> set log)"
  using assms
proof (induction localtime folder fs ts log rule: move_loop.induct)
  case (1 localtime folder fs log)
  then show ?case by (simp add: move_loop.simps)
next
  case (2 localtime folder fs p ts log)
  have "\<forall>t \<in> set (scan fs p @ ts). prefix rt (task_path t)"
    using "2.prems"(1) by (auto simp: scan_def)
  from "2.IH" [OF this "2.prems"(2)] show ?case by (simp add: move_loop.simps)
next
  case (3 localtime folder fs p ts log)
  have "\<forall>t \<in> set (descend fs p @ ts). prefix rt (task_path t)"
    using "3.prems"(1) by (auto simp: descend_def)
  from "3.IH" [OF this "3.prems"(2)] show ?case by (simp add: move_loop.simps)
next
  case (4 localtime folder fs file_path ts log)
  have "\<exists>evs. move_file localtime folder fs file_path = (fs, evs) \<and> (\<forall>e. ErrorMoving e \<notin> set evs)"
  proof (cases "is_file fs file_path")
    case True
    with "4.prems" have "in_bucket localtime folder fs file_path"
      by (intro all_in_buckets_D [where rt = rt]) simp_all
    then show ?thesis by (rule move_file_in_bucket)
  next
    case False
    then show ?thesis by (simp add: move_file_not_file)
  qed
  then obtain evs where mf: "move_file localtime folder fs file_path = (fs, evs)"
    and ne: "\<forall>e. ErrorMoving e \<notin> set evs" by blast
  have "\<forall>t \<in> set ts. prefix rt (task_path t)" using "4.prems"(1) by simp
  from "4.IH" [OF mf [symmetric] this "4.prems"(2)] mf ne show ?case
    by (simp add: move_loop.simps)
qed

lemma rglob_paths: "\<forall>t \<in> set (rglob fs rt). prefix rt (task_path t)"
  by (auto simp: rglob_def)

subsection \<open>The skeleton loops\<close>

lemma extends_refl: "extends fs fs"
  by (simp add: extends_def exists_def is_dir_def)

lemma extends_trans: "extends a b \<Longrightarrow> extends b c \<Longrightarrow> extends a c"
  unfolding extends_def
proof (intro allI)
  fix q
  assume ab: "\<forall>q. if exists a q then lookup b q = lookup a q else (exists b q \<longrightarrow> is_dir b q)"
    and bc: "\<forall>q. if exists b q then lookup c q = lookup b q else (exists c q \<longrightarrow> is_dir c q)"
  from ab have 1: "if exists a q then lookup b q = lookup a q else (exists b q \<longrightarrow> is_dir b q)" ..
  from bc have 2: "if exists b q then lookup c q = lookup b q else (exists c q \<longrightarrow> is_dir c q)" ..
  show "if exists a q then lookup c q = lookup a q else (exists c q \<longrightarrow> is_dir c q)"
  proof (cases "exists a q")
    case True
    with 1 have "lookup b q = lookup a q" by simp
    moreover from this True have "exists b q" by (simp add: exists_def)
    ultimately show ?thesis using 2 True by simp
  next
    case False
    show ?thesis
    proof (cases "exists b q")
      case True
      with 1 False have "is_dir b q" by simp
      moreover from 2 True have "lookup c q = lookup b q" by simp
      ultimately show ?thesis using False by (simp add: is_dir_def)
    next
      case nb: False
      with 2 False show ?thesis by simp
    qed
  qed
qed

lemma extends_exists: "extends fs fs' \<Longrightarrow> exists fs q \<Longrightarrow> exists fs' q"
  by (auto simp: extends_def exists_def split: if_splits)

lemma os_mkdir_extends: "os_mkdir fs p = Inr fs' \<Longrightarrow> extends fs fs'"
  using os_mkdir_lookup [of fs p fs'] os_mkdir_result [of fs p fs']
  by (auto simp: extends_def exists_def is_dir_def)

lemma mkdir_extends: "mkdir fs p = Inr fs' \<Longrightarrow> extends fs fs'"
proof (induction fs p arbitrary: fs' rule: mkdir.induct)
  case (1 fs p)
  show ?case
  proof (cases "os_mkdir fs p")
    case (Inr fs1)
    with "1.prems" have "fs' = fs1" by (simp add: mkdir_created)
    with Inr show ?thesis by (simp add: os_mkdir_extends)
  next
    case (Inl e)
    show ?thesis
    proof (cases "e = FileNotFoundError")
      case False
      with Inl "1.prems" have "fs' = fs"
        by (auto simp: mkdir_other_error split: if_splits)
      then show ?thesis by (simp add: extends_refl)
    next
      case True
      have p: "p \<noteq> []"
        using Inl True by (auto simp: os_mkdir_def exists_def lookup_def)
      from True Inl "1.prems" p obtain fs1 where
        par: "mkdir fs (butlast p) = Inr fs1"
        by (auto simp: mkdir_missing_parent split: sum.splits)
      have ih: "extends fs fs1"
        using "1.IH" [OF Inl True p par] .
      show ?thesis
      proof (cases "os_mkdir fs1 p")
        case (Inr fs2)
        with True Inl "1.prems" p par have "fs' = fs2" by (simp add: mkdir_missing_parent)
        with Inr ih show ?thesis
          using os_mkdir_extends [OF Inr] by (auto intro: extends_trans)
      next
        case e2: (Inl e2)
        with True Inl "1.prems" p par have "fs' = fs1"
          by (auto simp: mkdir_missing_parent split: if_splits)
        with ih show ?thesis by simp
      qed
    qed
  qed
qed

lemma make_bucket_ok:
  assumes "make_bucket fs t log = (None, fs', log')"
  shows "extends fs fs' \<and> exists fs' t
         \<and> (log' = log @ [DirExists t] \<or> log' = log @ [Creating t])"
proof (cases "exists fs t")
  case True
  with assms show ?thesis by (auto simp: make_bucket_def extends_refl)
next
  case False
  with assms obtain fs1 where m: "mkdir fs t = Inr fs1" and e: "fs' = fs1" "log' = log @ [Creating t]"
    by (auto simp: make_bucket_def split: sum.splits)
  from mkdir_lookup [OF m] have "exists fs1 t"
    by (auto simp: is_dir_def exists_def split: option.splits)
  with mkdir_extends [OF m] e show ?thesis by simp
qed

lemma make_bucket_error:
  "make_bucket fs t log = (Some e, fs', log') \<Longrightarrow> fs' = fs"
  by (auto simp: make_bucket_def split: if_splits sum.splits)

lemma make_bucket_exists:
  "exists fs t \<Longrightarrow> make_bucket fs t log = (None, fs, log @ [DirExists t])"
  by (simp add: make_bucket_def)

lemma dt_le_date: "dt_le a b \<Longrightarrow> date_of a \<le> date_of b"
  by (auto simp: dt_le_def date_of_def)

lemma midnight_dt_le: "midnight a \<Longrightarrow> date_of a \<le> date_of b \<Longrightarrow> dt_le a b"
  by (auto simp: dt_le_def date_of_def midnight_def)

lemma year_target_date: "date_of a = date_of b \<Longrightarrow> year_target folder a = year_target folder b"
  by (simp add: date_of_def year_target_def month_abbrev_def month_day_def)

lemma add_day_cases:
  assumes "add_day s = Inr s'"
  obtains (day) "day s < days_in_month (year s) (month s)" "s' = s\<lparr>day := day s + 1\<rparr>"
    | (month) "\<not> day s < days_in_month (year s) (month s)" "month s < 12"
        "s' = s\<lparr>month := month s + 1, day := 1\<rparr>"
    | (year) "\<not> day s < days_in_month (year s) (month s)" "\<not> month s < 12"
        "s' = s\<lparr>year := year s + 1, month := 1, day := 1\<rparr>"
  using assms by (auto simp: add_day_def split: if_splits)

lemma add_day_midnight: "add_day s = Inr s' \<Longrightarrow> midnight s \<Longrightarrow> midnight s'"
  by (erule add_day_cases) (simp_all add: midnight_def)

lemma add_day_next:
  assumes "valid_date D" "date_of s < date_of D" "add_day s = Inr s'"
  shows "date_of s' \<le> date_of D"
  using assms(3)
proof (cases rule: add_day_cases)
  case day
  with assms(2) show ?thesis by (auto simp: date_of_def)
next
  case month
  have "\<not> (year D = year s \<and> month D = month s)"
  proof
    assume "year D = year s \<and> month D = month s"
    with assms(1,2) month(1) show False by (auto simp: date_of_def valid_date_def)
  qed
  with month assms(1,2) show ?thesis by (auto simp: date_of_def valid_date_def)
next
  case year
  have "\<not> (year D = year s \<and> month D = month s)"
  proof
    assume "year D = year s \<and> month D = month s"
    with assms(1,2) year(1) show False by (auto simp: date_of_def valid_date_def)
  qed
  with year assms(1,2) show ?thesis by (auto simp: date_of_def valid_date_def)
qed

lemma add_day_year_mono: "add_day s = Inr s' \<Longrightarrow> year s \<le> year s'"
  by (erule add_day_cases) simp_all

lemma dt_le_trans: "dt_le a b \<Longrightarrow> dt_le b c \<Longrightarrow> dt_le a c"
  unfolding dt_le_def by (rule order_trans)

lemma all_loop_stop: "\<not> dt_le start today \<Longrightarrow> all_loop folder today start fs log = (None, fs, log)"
  by (subst all_loop.simps) simp

lemma all_loop_step:
  assumes "dt_le start today"
    and "make_bucket fs (year_target folder start) log = (None, fs1, log1)"
    and "add_day start = Inr start'"
  shows "all_loop folder today start fs log = all_loop folder today start' fs1 log1"
  using assms by (subst all_loop.simps) simp

lemma all_loop_body:
  assumes "all_loop folder today start fs log = (None, fs', log')" "dt_le start today"
  obtains fs1 log1 start' where
    "make_bucket fs (year_target folder start) log = (None, fs1, log1)"
    "add_day start = Inr start'"
    "all_loop folder today start' fs1 log1 = (None, fs', log')"
proof -
  obtain r fs1 log1 where mb: "make_bucket fs (year_target folder start) log = (r, fs1, log1)"
    by (cases "make_bucket fs (year_target folder start) log") auto
  have r: "r = None"
  proof (cases r)
    case (Some e)
    with mb assms show ?thesis by (subst (asm) all_loop.simps) simp
  qed simp
  obtain start' where ad: "add_day start = Inr start'"
  proof (cases "add_day start")
    case (Inl e)
    with mb r assms show ?thesis by (subst (asm) all_loop.simps) simp
  qed simp
  from all_loop_step [OF assms(2) mb [unfolded r] ad] assms(1)
  have "all_loop folder today start' fs1 log1 = (None, fs', log')" by simp
  with mb r ad that show ?thesis by blast
qed

lemma all_loop_extends:
  "all_loop folder today start fs log = (None, fs', log') \<Longrightarrow> extends fs fs'"
proof (induction folder today start fs log rule: all_loop.induct)
  case (1 folder today start fs log)
  show ?case
  proof (cases "dt_le start today")
    case False
    with "1.prems" show ?thesis by (simp add: all_loop_stop extends_refl)
  next
    case True
    from "1.prems" True obtain fs1 log1 start' where
      b: "make_bucket fs (year_target folder start) log = (None, fs1, log1)"
         "add_day start = Inr start'"
         "all_loop folder today start' fs1 log1 = (None, fs', log')"
      by (rule all_loop_body)
    from "1.IH" [OF True b(1) [symmetric] refl refl b(2) b(3)] make_bucket_ok [OF b(1)]
    show ?thesis by (blast intro: extends_trans)
  qed
qed

lemma all_loop_covers:
  "all_loop folder today start fs log = (None, fs', log') \<Longrightarrow> midnight start \<Longrightarrow>
   valid_date D \<Longrightarrow> dt_le start D \<Longrightarrow> dt_le D today \<Longrightarrow> exists fs' (year_target folder D)"
proof (induction folder today start fs log rule: all_loop.induct)
  case (1 folder today start fs log)
  have True: "dt_le start today"
    using "1.prems"(4,5) by (rule dt_le_trans)
  from "1.prems"(1) True obtain fs1 log1 start' where
    b: "make_bucket fs (year_target folder start) log = (None, fs1, log1)"
       "add_day start = Inr start'"
       "all_loop folder today start' fs1 log1 = (None, fs', log')"
    by (rule all_loop_body)
  have le: "date_of start \<le> date_of D" using "1.prems"(4) by (rule dt_le_date)
  show ?case
  proof (cases "date_of start = date_of D")
    case True
    have "exists fs1 (year_target folder start)" using make_bucket_ok [OF b(1)] by simp
    then have "exists fs' (year_target folder start)"
      using all_loop_extends [OF b(3)] by (rule extends_exists [rotated])
    with True show ?thesis by (simp add: year_target_date [of start D])
  next
    case False
    with le have "date_of start < date_of D" by simp
    with "1.prems"(3) have "date_of start' \<le> date_of D" using b(2) by (rule add_day_next)
    moreover have "midnight start'" using b(2) "1.prems"(2) by (rule add_day_midnight)
    ultimately have "dt_le start' D" by (rule midnight_dt_le [rotated])
    from "1.IH" [OF \<open>dt_le start today\<close> b(1) [symmetric] refl refl b(2) b(3) \<open>midnight start'\<close>
        "1.prems"(3) this "1.prems"(5)]
    show ?thesis .
  qed
qed

lemma all_loop_again:
  "all_loop folder today start fs log = (None, fs', log') \<Longrightarrow> extends fs' fsx \<Longrightarrow>
   \<exists>evs. all_loop folder today start fsx logx = (None, fsx, logx @ evs)
         \<and> (\<forall>p. Creating p \<notin> set evs)"
proof (induction folder today start fs log arbitrary: logx rule: all_loop.induct)
  case (1 folder today start fs log)
  show ?case
  proof (cases "dt_le start today")
    case False
    then show ?thesis by (simp add: all_loop_stop)
  next
    case True
    from "1.prems"(1) True obtain fs1 log1 start' where
      b: "make_bucket fs (year_target folder start) log = (None, fs1, log1)"
         "add_day start = Inr start'"
         "all_loop folder today start' fs1 log1 = (None, fs', log')"
      by (rule all_loop_body)
    let ?t = "year_target folder start"
    have "exists fs1 ?t" using make_bucket_ok [OF b(1)] by simp
    then have "exists fs' ?t"
      using all_loop_extends [OF b(3)] by (rule extends_exists [rotated])
    then have "exists fsx ?t"
      using "1.prems"(2) by (rule extends_exists [rotated])
    then have mb: "make_bucket fsx ?t logx = (None, fsx, logx @ [DirExists ?t])"
      by (rule make_bucket_exists)
    from "1.IH" [OF True b(1) [symmetric] refl refl b(2) b(3) "1.prems"(2), of "logx @ [DirExists ?t]"]
    obtain evs where
      r: "all_loop folder today start' fsx (logx @ [DirExists ?t])
            = (None, fsx, (logx @ [DirExists ?t]) @ evs)"
      and n: "\<forall>p. Creating p \<notin> set evs" by blast
    have "all_loop folder today start fsx logx = (None, fsx, logx @ (DirExists ?t # evs))"
      using all_loop_step [OF True mb b(2)] r by simp
    moreover have "\<forall>p. Creating p \<notin> set (DirExists ?t # evs)" using n by simp
    ultimately show ?thesis by blast
  qed
qed

lemma year_loop_stop:
  "\<not> year start < n \<Longrightarrow> year_loop folder n start fs log = (None, start, fs, log)"
  by (subst year_loop.simps) simp

lemma year_loop_step:
  assumes "year start < n"
    and "make_bucket fs (year_target folder start) log = (None, fs1, log1)"
    and "add_day start = Inr start'"
  shows "year_loop folder n start fs log = year_loop folder n start' fs1 log1"
  using assms by (subst year_loop.simps) simp

lemma year_loop_body:
  assumes "year_loop folder n start fs log = (None, e, fs', log')" "year start < n"
  obtains fs1 log1 start' where
    "make_bucket fs (year_target folder start) log = (None, fs1, log1)"
    "add_day start = Inr start'"
    "year_loop folder n start' fs1 log1 = (None, e, fs', log')"
proof -
  obtain r fs1 log1 where mb: "make_bucket fs (year_target folder start) log = (r, fs1, log1)"
    by (cases "make_bucket fs (year_target folder start) log") auto
  have r: "r = None"
  proof (cases r)
    case (Some e)
    with mb assms show ?thesis by (subst (asm) year_loop.simps) simp
  qed simp
  obtain start' where ad: "add_day start = Inr start'"
  proof (cases "add_day start")
    case (Inl e)
    with mb r assms show ?thesis by (subst (asm) year_loop.simps) simp
  qed simp
  from year_loop_step [OF assms(2) mb [unfolded r] ad] assms(1)
  have "year_loop folder n start' fs1 log1 = (None, e, fs', log')" by simp
  with mb r ad that show ?thesis by blast
qed

lemma year_loop_extends:
  "year_loop folder n start fs log = (None, e, fs', log') \<Longrightarrow> extends fs fs'"
proof (induction folder n start fs log rule: year_loop.induct)
  case (1 folder n start fs log)
  show ?case
  proof (cases "year start < n")
    case False
    with "1.prems" show ?thesis by (simp add: year_loop_stop extends_refl)
  next
    case True
    from "1.prems" True obtain fs1 log1 start' where
      b: "make_bucket fs (year_target folder start) log = (None, fs1, log1)"
         "add_day start = Inr start'"
         "year_loop folder n start' fs1 log1 = (None, e, fs', log')"
      by (rule year_loop_body)
    from "1.IH" [OF True b(1) [symmetric] refl refl b(2) b(3)] make_bucket_ok [OF b(1)]
    show ?thesis by (blast intro: extends_trans)
  qed
qed

lemma year_loop_covers:
  "year_loop folder n start fs log = (None, e, fs', log') \<Longrightarrow>
   valid_date D \<Longrightarrow> date_of start \<le> date_of D \<Longrightarrow> year D < n \<Longrightarrow>
     exists fs' (year_target folder D)"
proof (induction folder n start fs log rule: year_loop.induct)
  case (1 folder n start fs log)
  have "year start \<le> year D" using "1.prems"(3) by (auto simp: date_of_def)
  with "1.prems"(4) have True: "year start < n" by simp
  from "1.prems"(1) True obtain fs1 log1 start' where
    b: "make_bucket fs (year_target folder start) log = (None, fs1, log1)"
       "add_day start = Inr start'"
       "year_loop folder n start' fs1 log1 = (None, e, fs', log')"
    by (rule year_loop_body)
  show ?case
  proof (cases "date_of start = date_of D")
    case True
    have "exists fs1 (year_target folder start)" using make_bucket_ok [OF b(1)] by simp
    then have "exists fs' (year_target folder start)"
      using year_loop_extends [OF b(3)] by (rule extends_exists [rotated])
    with True show ?thesis by (simp add: year_target_date [of start D])
  next
    case False
    with "1.prems"(3) have "date_of start < date_of D" by simp
    with "1.prems"(2) have "date_of start' \<le> date_of D" using b(2) by (rule add_day_next)
    from "1.IH" [OF \<open>year start < n\<close> b(1) [symmetric] refl refl b(2) b(3) "1.prems"(2) this "1.prems"(4)]
    show ?thesis .
  qed
qed

lemma year_loop_again:
  "year_loop folder n start fs log = (None, e, fs', log') \<Longrightarrow> extends fs' fsx \<Longrightarrow>
   \<exists>evs. year_loop folder n start fsx logx = (None, e, fsx, logx @ evs)
         \<and> (\<forall>p. Creating p \<notin> set evs)"
proof (induction folder n start fs log arbitrary: logx rule: year_loop.induct)
  case (1 folder n start fs log)
  show ?case
  proof (cases "year start < n")
    case False
    with "1.prems"(1) show ?thesis by (simp add: year_loop_stop)
  next
    case True
    from "1.prems"(1) True obtain fs1 log1 start' where
      b: "make_bucket fs (year_target folder start) log = (None, fs1, log1)"
         "add_day start = Inr start'"
         "year_loop folder n start' fs1 log1 = (None, e, fs', log')"
      by (rule year_loop_body)
    let ?t = "year_target folder start"
    have "exists fs1 ?t" using make_bucket_ok [OF b(1)] by simp
    then have "exists fs' ?t"
      using year_loop_extends [OF b(3)] by (rule extends_exists [rotated])
    then have "exists fsx ?t"
      using "1.prems"(2) by (rule extends_exists [rotated])
    then have mb: "make_bucket fsx ?t logx = (None, fsx, logx @ [DirExists ?t])"
      by (rule make_bucket_exists)
    from "1.IH" [OF True b(1) [symmetric] refl refl b(2) b(3) "1.prems"(2), of "logx @ [DirExists ?t]"]
    obtain evs where
      r: "year_loop folder n start' fsx (logx @ [DirExists ?t])
            = (None, e, fsx, (logx @ [DirExists ?t]) @ evs)"
      and n: "\<forall>p. Creating p \<notin> set evs" by blast
    have "year_loop folder n start fsx logx = (None, e, fsx, logx @ (DirExists ?t # evs))"
      using year_loop_step [OF True mb b(2)] r by simp
    moreover have "\<forall>p. Creating p \<notin> set (DirExists ?t # evs)" using n by simp
    ultimately show ?thesis by blast
  qed
qed

lemma extends_bucket:
  assumes "extends fs fs'" "exists fs' t"
  shows "exists fs' t \<and> (exists fs t \<longrightarrow> lookup fs' t = lookup fs t)
         \<and> (\<not> exists fs t \<longrightarrow> is_dir fs' t)"
  using assms by (auto simp: extends_def split: if_splits)

section \<open>The claims\<close>

subsection \<open>C1: the bucket of the relocator under \<^verbatim>\<open>all\<close>\<close>

text \<open>
  C1 says that under the \<^verbatim>\<open>all\<close> command the File Relocator computes the year-qualified
  bucket \<^verbatim>\<open><folder>/<Y>/<Mon>/<M>-<D>\<close> that the Skeleton Builder created, so that the file
  lands in the skeleton. The code does not do this: \<^verbatim>\<open>all\<close> calls \<^verbatim>\<open>move_files(folder)\<close>,
  whose bucket is \<^verbatim>\<open><folder>/<Mon>/<M>-<D>\<close>, without the year. The theorem runs the
  command on a folder that holds one file modified on 2024-01-01 (local time), with the
  clock at 2024-01-02: the builder creates \<^verbatim>\<open>photos/2024/Jan/1-1\<close> and \<^verbatim>\<open>1-2\<close>, the
  relocator tries \<^verbatim>\<open>photos/Jan/1-1/x.jpg\<close>, the rename fails because that directory does
  not exist, the file stays where it was, and the pruner removes the two empty buckets.
\<close>

theorem all_cmd_misses_skeleton:
  "all_cmd utc_minus_8
     \<lparr>year = 2024, month = 1, day = 2, hour = 9, minute = 30, second = 0, microsecond = 0\<rparr>
     \<lparr>year = 2024, month = 6, day = 15, hour = 0, minute = 0, second = 0, microsecond = 0\<rparr>
     [''photos'']
     [([''photos''], Dir True), ([''photos'', ''x.jpg''], File 1704140000 1704150000 7)]
   = (None,
      [([''photos''], Dir True), ([''photos'', ''x.jpg''], File 1704140000 1704150000 7),
       ([''photos'', ''2024''], Dir True), ([''photos'', ''2024'', ''Jan''], Dir True)],
      [Organizing [''photos''],
       StartingFrom
         \<lparr>year = 2024, month = 1, day = 1, hour = 0, minute = 0, second = 0, microsecond = 0\<rparr>,
       Creating [''photos'', ''2024'', ''Jan'', ''1-1''],
       Creating [''photos'', ''2024'', ''Jan'', ''1-2''],
       FoundFile [''photos'', ''x.jpg''],
       CreationTime
         \<lparr>year = 2024, month = 1, day = 1, hour = 15, minute = 0, second = 0, microsecond = 0\<rparr>,
       ModifiedTime
         \<lparr>year = 2024, month = 1, day = 1, hour = 12, minute = 13, second = 20,
          microsecond = 0\<rparr>,
       Moving [''photos'', ''x.jpg''] [''photos'', ''Jan'', ''1-1'', ''x.jpg''],
       ErrorMoving FileNotFoundError,
       NotEmptyOrNotDir [''photos'', ''x.jpg''],
       NotEmptyOrNotDir [''photos'', ''2024''],
       NotEmptyOrNotDir [''photos'', ''2024'', ''Jan''],
       Deleted [''photos'', ''2024'', ''Jan'', ''1-1''],
       Deleted [''photos'', ''2024'', ''Jan'', ''1-2'']])"
  by code_simp

subsection \<open>C2: the loop of \<^verbatim>\<open>month\<close>\<close>

text \<open>
  C2 says that for every start date the loop of \<^verbatim>\<open>month\<close> runs once per day of the start
  date's month and stops after the last day of that month. The loop runs while
  \<^verbatim>\<open>start.month < next_month\<close> with \<^verbatim>\<open>next_month = start.month + 1\<close>. For a date in December
  \<^verbatim>\<open>next_month\<close> is 13, which no month reaches, so the loop goes on into January and through
  every later day. The theorem runs the command for 2024-12-15 on an empty folder: the loop
  ends only when \<^verbatim>\<open>start + timedelta(days=1)\<close> raises \<^verbatim>\<open>OverflowError\<close> at 9999-12-31, and
  the command ends with that error. (\<open>month_loop_within_month\<close> above shows that for January
  to November the loop does what C2 says.)
\<close>

theorem month_cmd_december_overflows: 
  "fst (month_cmd utc_minus_8
          \<lparr>year = 2024, month = 12, day = 15, hour = 10, minute = 0, second = 0, microsecond = 0\<rparr>
          [''photos''] [([''photos''], Dir True)]) = Some OverflowError
   \<and> (case month_loop [''photos''] 13
            \<lparr>year = 2024, month = 12, day = 1, hour = 0, minute = 0, second = 0, microsecond = 0\<rparr>
            [([''photos''], Dir True)] []
         of (r, start, fs', log') \<Rightarrow>
              r = Some OverflowError \<and> year start = 9999 \<and> month start = 12 \<and> day start = 31)"
proof -
  let ?start = "\<lparr>year = 2024, month = 12, day = 1, hour = 0, minute = 0, second = 0, microsecond = 0\<rparr>"
  have v: "valid_date ?start"
    by (simp add: valid_date_def days_in_month_def MAXYEAR_def)
  have w: "all_writable [([''photos''], Dir True)]"
    by (simp add: all_writable_def)
  from month_loop_december [OF v w, of "[''photos'']" "[]"]
  have a: "case month_loop [''photos''] 13 ?start [([''photos''], Dir True)] []
         of (r, start, fs', log') \<Rightarrow>
              r = Some OverflowError \<and> year start = 9999 \<and> month start = 12 \<and> day start = 31"
    by auto
  from month_loop_december [OF v w, of "[''photos'']" "[Organizing [''photos''], StartingFrom ?start]"]
  have "fst (month_cmd utc_minus_8
          \<lparr>year = 2024, month = 12, day = 15, hour = 10, minute = 0, second = 0, microsecond = 0\<rparr>
          [''photos''] [([''photos''], Dir True)]) = Some OverflowError"
    by (auto simp: month_cmd_def Let_def)
  with a show ?thesis by simp
qed

subsection \<open>C3: one pruning pass\<close>

text \<open>
  C3 says that one run of the Empty Directory Pruner also deletes the directories that become
  empty once their empty descendants are gone, so that a second run deletes nothing. The
  code visits a directory before its children (\<^verbatim>\<open>rglob\<close> walks top-down), so a directory
  that holds only an empty directory is found non-empty and kept. The theorem runs the
  pruner twice on \<^verbatim>\<open>p/a/b\<close>, \<^verbatim>\<open>b\<close> empty: the first run deletes \<^verbatim>\<open>p/a/b\<close> and leaves \<^verbatim>\<open>p/a\<close>
  empty, the second run deletes \<^verbatim>\<open>p/a\<close>.
\<close>

theorem clean_folders_twice:
  "clean_folders
     [([''p''], Dir True), ([''p'', ''a''], Dir True), ([''p'', ''a'', ''b''], Dir True)] [''p'']
   = (None, [([''p''], Dir True), ([''p'', ''a''], Dir True)],
      [NotEmptyOrNotDir [''p'', ''a''], Deleted [''p'', ''a'', ''b'']])
   \<and> clean_folders [([''p''], Dir True), ([''p'', ''a''], Dir True)] [''p'']
   = (None, [([''p''], Dir True)], [Deleted [''p'', ''a'']])"
  by (simp add: clean_folders_def clean_loop.simps fs_eval)

subsection \<open>C4: conflict safety\<close>

text \<open>
  C4: when the destination path computed for a file already exists, the relocator skips the
  move. The step returns the file system it was given, so the source file is where it was
  and the existing destination is untouched; the log ends with the conflict line; the loop
  goes on with the remaining paths.
\<close>

theorem conflict_safety:
  assumes "lookup fs file_path = Some (File m c d)"
    and "exists fs (move_target folder (localtime m) @ [last file_path])"
  shows "move_file localtime folder fs file_path =
           (fs, [FoundFile file_path, CreationTime (localtime c), ModifiedTime (localtime m),
                 Moving file_path (move_target folder (localtime m) @ [last file_path]),
                 AlreadyExists (move_target folder (localtime m) @ [last file_path])])
         \<and> move_loop localtime folder fs (Yield file_path # ts) log =
             move_loop localtime folder fs ts
               (log @ [FoundFile file_path, CreationTime (localtime c), ModifiedTime (localtime m),
                       Moving file_path (move_target folder (localtime m) @ [last file_path]),
                       AlreadyExists (move_target folder (localtime m) @ [last file_path])])"
  using assms by (simp add: move_file_conflict move_loop.simps)

theorem conflict_safety_witness:
  "lookup [([''photos''], Dir True), ([''photos'', ''x.jpg''], File 1704140000 1704150000 7),
           ([''photos'', ''Jan''], Dir True), ([''photos'', ''Jan'', ''1-1''], Dir True),
           ([''photos'', ''Jan'', ''1-1'', ''x.jpg''], File 1704100000 1704100000 8)]
          [''photos'', ''x.jpg''] = Some (File 1704140000 1704150000 7)
   \<and> exists [([''photos''], Dir True), ([''photos'', ''x.jpg''], File 1704140000 1704150000 7),
           ([''photos'', ''Jan''], Dir True), ([''photos'', ''Jan'', ''1-1''], Dir True),
           ([''photos'', ''Jan'', ''1-1'', ''x.jpg''], File 1704100000 1704100000 8)]
          [''photos'', ''Jan'', ''1-1'', ''x.jpg'']
   \<and> fst (move_file utc_minus_8 [''photos'']
          [([''photos''], Dir True), ([''photos'', ''x.jpg''], File 1704140000 1704150000 7),
           ([''photos'', ''Jan''], Dir True), ([''photos'', ''Jan'', ''1-1''], Dir True),
           ([''photos'', ''Jan'', ''1-1'', ''x.jpg''], File 1704100000 1704100000 8)]
          [''photos'', ''x.jpg''])
       = [([''photos''], Dir True), ([''photos'', ''x.jpg''], File 1704140000 1704150000 7),
           ([''photos'', ''Jan''], Dir True), ([''photos'', ''Jan'', ''1-1''], Dir True),
           ([''photos'', ''Jan'', ''1-1'', ''x.jpg''], File 1704100000 1704100000 8)]"
proof -
  let ?fs = "[([''photos''], Dir True), ([''photos'', ''x.jpg''], File 1704140000 1704150000 7),
           ([''photos'', ''Jan''], Dir True), ([''photos'', ''Jan'', ''1-1''], Dir True),
           ([''photos'', ''Jan'', ''1-1'', ''x.jpg''], File 1704100000 1704100000 8)]"
  have target: "move_target [''photos''] (utc_minus_8 1704140000) @ [last [''photos'', ''x.jpg'']]
                  = [''photos'', ''Jan'', ''1-1'', ''x.jpg'']"
    by code_simp
  have h1: "lookup ?fs [''photos'', ''x.jpg''] = Some (File 1704140000 1704150000 7)"
    by (simp add: lookup_def)
  have h2: "exists ?fs (move_target [''photos''] (utc_minus_8 1704140000) @ [last [''photos'', ''x.jpg'']])"
    unfolding target by (simp add: exists_def lookup_def)
  show ?thesis
    using h1 h2
      conflict_safety [where fs = ?fs and file_path = "[''photos'', ''x.jpg'']"
        and m = 1704140000 and c = 1704150000 and d = 7 and folder = "[''photos'']"
        and localtime = utc_minus_8 and ts = "[]" and log = "[]"]
    unfolding target by simp
qed

subsection \<open>C5: a failed move does not stop the batch\<close>



subsection \<open>C6: a failed removal ends the pruning pass\<close>

text \<open>
  C6 says that a failure to remove an empty directory is logged and skipped and never leaves
  the pruning pass. \<^verbatim>\<open>clean_folders\<close> has no \<^verbatim>\<open>try\<close> at all: the counterexample prunes a
  tree in which \<^verbatim>\<open>p/a\<close> is not writable, so that removing the empty \<^verbatim>\<open>p/a/b\<close> fails. The
  pass ends with \<^verbatim>\<open>PermissionError\<close>, nothing about the failure is logged, and the empty
  \<^verbatim>\<open>p/z/e\<close>, which comes later in the walk, is never looked at.
\<close>

theorem clean_folders_error_propagates:
  "clean_folders
     [([''p''], Dir True), ([''p'', ''a''], Dir False), ([''p'', ''a'', ''b''], Dir True),
      ([''p'', ''z''], Dir True), ([''p'', ''z'', ''e''], Dir True)] [''p'']
   = (Some PermissionError,
      [([''p''], Dir True), ([''p'', ''a''], Dir False), ([''p'', ''a'', ''b''], Dir True),
       ([''p'', ''z''], Dir True), ([''p'', ''z'', ''e''], Dir True)],
      [NotEmptyOrNotDir [''p'', ''a''], NotEmptyOrNotDir [''p'', ''z'']])"
  by (simp add: clean_folders_def clean_loop.simps fs_eval)

text \<open>
  C6 as amended: when \<^verbatim>\<open>rmdir\<close> fails on an empty directory, the error leaves the loop at
  once: the pass returns the error with the file system and the log as they were, whatever
  paths were still to come.
\<close>

theorem rmdir_failure_is_fatal:
  assumes "is_dir fs subdir" and "iterdir fs subdir = []" and "rmdir fs subdir = Inl e"
  shows "clean_loop fs (Yield subdir # ts) log = (Some e, fs, log)"
  using assms by (simp add: clean_loop.simps)

theorem rmdir_failure_is_fatal_witness:
  "is_dir [([''p''], Dir True), ([''p'', ''a''], Dir False), ([''p'', ''a'', ''b''], Dir True)]
          [''p'', ''a'', ''b'']
   \<and> iterdir [([''p''], Dir True), ([''p'', ''a''], Dir False), ([''p'', ''a'', ''b''], Dir True)]
          [''p'', ''a'', ''b''] = []
   \<and> rmdir [([''p''], Dir True), ([''p'', ''a''], Dir False), ([''p'', ''a'', ''b''], Dir True)]
          [''p'', ''a'', ''b''] = Inl PermissionError
   \<and> clean_loop
         [([''p''], Dir True), ([''p'', ''a''], Dir False), ([''p'', ''a'', ''b''], Dir True)]
         [Yield [''p'', ''a'', ''b''], Yield [''p'', ''z'']] []
       = (Some PermissionError,
          [([''p''], Dir True), ([''p'', ''a''], Dir False), ([''p'', ''a'', ''b''], Dir True)],
          [])"
proof -
  let ?fs = "[([''p''], Dir True), ([''p'', ''a''], Dir False), ([''p'', ''a'', ''b''], Dir True)]"
  have h1: "is_dir ?fs [''p'', ''a'', ''b'']" by (simp add: fs_eval)
  have h2: "iterdir ?fs [''p'', ''a'', ''b''] = []" by (simp add: fs_eval)
  have h3: "rmdir ?fs [''p'', ''a'', ''b''] = Inl PermissionError" by (simp add: fs_eval)
  show ?thesis
    using h1 h2 h3 rmdir_failure_is_fatal [OF h1 h2 h3, of "[Yield [''p'', ''z'']]" "[]"]
    by simp
qed

subsection \<open>C7: running the relocator twice\<close>

text \<open>
  C7 says that of two runs in succession the second performs no move and logs no error. Both
  fail on the code. In the first tree \<^verbatim>\<open>photos/x.jpg\<close> belongs where another \<^verbatim>\<open>x.jpg\<close> sits
  that itself belongs in \<^verbatim>\<open>Apr/4-2\<close>: the first run skips the one (conflict) and then moves
  the other away, so the second run finds the destination free and moves \<^verbatim>\<open>photos/x.jpg\<close>.
  In the second tree the bucket of the only file does not exist: the first run changes
  nothing and a second run logs the same error again.
\<close>

theorem second_run_moves_and_logs_errors:
  "fst (move_files utc_minus_8
     [([''photos''], Dir True), ([''photos'', ''x.jpg''], File 1710500000 1710500000 1),
      ([''photos'', ''Mar''], Dir True), ([''photos'', ''Mar'', ''3-15''], Dir True),
      ([''photos'', ''Mar'', ''3-15'', ''x.jpg''], File 1712100000 1712100000 2),
      ([''photos'', ''Apr''], Dir True), ([''photos'', ''Apr'', ''4-2''], Dir True)]
     [''photos''] None)
   = [([''photos''], Dir True), ([''photos'', ''x.jpg''], File 1710500000 1710500000 1),
      ([''photos'', ''Mar''], Dir True), ([''photos'', ''Mar'', ''3-15''], Dir True),
      ([''photos'', ''Apr''], Dir True), ([''photos'', ''Apr'', ''4-2''], Dir True),
      ([''photos'', ''Apr'', ''4-2'', ''x.jpg''], File 1712100000 1712100000 2)]
   \<and> fst (move_files utc_minus_8
     [([''photos''], Dir True), ([''photos'', ''x.jpg''], File 1710500000 1710500000 1),
      ([''photos'', ''Mar''], Dir True), ([''photos'', ''Mar'', ''3-15''], Dir True),
      ([''photos'', ''Apr''], Dir True), ([''photos'', ''Apr'', ''4-2''], Dir True),
      ([''photos'', ''Apr'', ''4-2'', ''x.jpg''], File 1712100000 1712100000 2)]
     [''photos''] None)
   = [([''photos''], Dir True), ([''photos'', ''Mar''], Dir True),
      ([''photos'', ''Mar'', ''3-15''], Dir True),
      ([''photos'', ''Apr''], Dir True), ([''photos'', ''Apr'', ''4-2''], Dir True),
      ([''photos'', ''Apr'', ''4-2'', ''x.jpg''], File 1712100000 1712100000 2),
      ([''photos'', ''Mar'', ''3-15'', ''x.jpg''], File 1710500000 1710500000 1)]
   \<and> fst (move_files utc_minus_8 [([''photos''], Dir True), ([''photos'', ''x.jpg''], File 1704140000 1704150000 7)]
          [''photos''] None)
     = [([''photos''], Dir True), ([''photos'', ''x.jpg''], File 1704140000 1704150000 7)]
   \<and> ErrorMoving FileNotFoundError \<in> set (snd (move_files utc_minus_8
          [([''photos''], Dir True), ([''photos'', ''x.jpg''], File 1704140000 1704150000 7)]
          [''photos''] None))"
  by code_simp

text \<open>
  C7 as amended, for two runs in succession on the same tree. A file that is in its bucket
  is never moved. A file that the first run has put at a path is in its bucket there, and
  the second run leaves it there: each file is moved at most once. When after the first run
  every file below the read target is in its bucket, the second run changes nothing and
  logs no error. (A file that the first run could not move is tried again by the second.)
\<close>

theorem relocation_twice:
  assumes "move_files localtime fs folder read_target = (fs1, log1)"
    and "move_files localtime fs1 folder read_target = (fs2, log2)"
  shows "(in_bucket localtime folder fs d \<longrightarrow> lookup fs1 d = lookup fs d)
       \<and> (is_file fs1 d \<and> lookup fs1 d \<noteq> lookup fs d \<longrightarrow>
            in_bucket localtime folder fs1 d \<and> lookup fs2 d = lookup fs1 d)
       \<and> (all_in_buckets localtime folder
             (case read_target of None \<Rightarrow> folder | Some t \<Rightarrow> t) fs1 \<longrightarrow>
            fs2 = fs1 \<and> (\<forall>e. ErrorMoving e \<notin> set log2))"
proof -
  let ?rt = "case read_target of None \<Rightarrow> folder | Some t \<Rightarrow> t"
  have r1: "move_loop localtime folder fs (rglob fs ?rt) [] = (fs1, log1)"
    using assms(1) by (simp add: move_files_def)
  have r2: "move_loop localtime folder fs1 (rglob fs1 ?rt) [] = (fs2, log2)"
    using assms(2) by (simp add: move_files_def)
  have a: "lookup fs1 d = lookup fs d" if "in_bucket localtime folder fs d"
    using move_loop_keeps_bucket [OF that, of "rglob fs ?rt" "[]"] r1 by simp
  have b: "in_bucket localtime folder fs1 d \<and> lookup fs2 d = lookup fs1 d"
    if "is_file fs1 d" "lookup fs1 d \<noteq> lookup fs d"
  proof -
    have i: "in_bucket localtime folder fs1 d"
      using move_loop_arrival [of localtime folder fs "rglob fs ?rt" "[]" d] r1 that by simp
    from move_loop_keeps_bucket [OF i, of "rglob fs1 ?rt" "[]"] r2 i show ?thesis by simp
  qed
  have c: "fs2 = fs1 \<and> (\<forall>e. ErrorMoving e \<notin> set log2)"
    if "all_in_buckets localtime folder ?rt fs1"
    using move_loop_all_in_buckets [OF that rglob_paths [of fs1 ?rt], where log = "[]"] r2
    by simp
  show ?thesis
  proof (intro conjI impI)
    assume "in_bucket localtime folder fs d"
    then show "lookup fs1 d = lookup fs d" by (rule a)
  next
    assume "is_file fs1 d \<and> lookup fs1 d \<noteq> lookup fs d"
    then show "in_bucket localtime folder fs1 d" using b by simp
  next
    assume "is_file fs1 d \<and> lookup fs1 d \<noteq> lookup fs d"
    then show "lookup fs2 d = lookup fs1 d" using b by simp
  next
    assume "all_in_buckets localtime folder ?rt fs1"
    then show "fs2 = fs1" using c by simp
  next
    assume "all_in_buckets localtime folder ?rt fs1"
    then show "\<forall>e. ErrorMoving e \<notin> set log2" using c by simp
  qed
qed

theorem relocation_twice_witness:
  "fst (move_files utc_minus_8
     [([''photos''], Dir True), ([''photos'', ''x.jpg''], File 1704140000 1704150000 7),
      ([''photos'', ''Jan''], Dir True), ([''photos'', ''Jan'', ''1-1''], Dir True),
      ([''photos'', ''Jan'', ''1-1'', ''y.jpg''], File 1704100000 1704100000 8)]
     [''photos''] None)
   = [([''photos''], Dir True),
      ([''photos'', ''Jan''], Dir True), ([''photos'', ''Jan'', ''1-1''], Dir True),
      ([''photos'', ''Jan'', ''1-1'', ''y.jpg''], File 1704100000 1704100000 8),
      ([''photos'', ''Jan'', ''1-1'', ''x.jpg''], File 1704140000 1704150000 7)]
   \<and> in_bucket utc_minus_8 [''photos'']
     [([''photos''], Dir True), ([''photos'', ''x.jpg''], File 1704140000 1704150000 7),
      ([''photos'', ''Jan''], Dir True), ([''photos'', ''Jan'', ''1-1''], Dir True),
      ([''photos'', ''Jan'', ''1-1'', ''y.jpg''], File 1704100000 1704100000 8)]
     [''photos'', ''Jan'', ''1-1'', ''y.jpg'']
   \<and> lookup
     [([''photos''], Dir True),
      ([''photos'', ''Jan''], Dir True), ([''photos'', ''Jan'', ''1-1''], Dir True),
      ([''photos'', ''Jan'', ''1-1'', ''y.jpg''], File 1704100000 1704100000 8),
      ([''photos'', ''Jan'', ''1-1'', ''x.jpg''], File 1704140000 1704150000 7)]
     [''photos'', ''Jan'', ''1-1'', ''y.jpg'']
     = Some (File 1704100000 1704100000 8)
   \<and> is_file
     [([''photos''], Dir True),
      ([''photos'', ''Jan''], Dir True), ([''photos'', ''Jan'', ''1-1''], Dir True),
      ([''photos'', ''Jan'', ''1-1'', ''y.jpg''], File 1704100000 1704100000 8),
      ([''photos'', ''Jan'', ''1-1'', ''x.jpg''], File 1704140000 1704150000 7)]
     [''photos'', ''Jan'', ''1-1'', ''x.jpg'']
   \<and> lookup
     [([''photos''], Dir True), ([''photos'', ''x.jpg''], File 1704140000 1704150000 7),
      ([''photos'', ''Jan''], Dir True), ([''photos'', ''Jan'', ''1-1''], Dir True),
      ([''photos'', ''Jan'', ''1-1'', ''y.jpg''], File 1704100000 1704100000 8)]
     [''photos'', ''Jan'', ''1-1'', ''x.jpg''] = None
   \<and> all_in_buckets utc_minus_8 [''photos''] [''photos'']
     [([''photos''], Dir True),
      ([''photos'', ''Jan''], Dir True), ([''photos'', ''Jan'', ''1-1''], Dir True),
      ([''photos'', ''Jan'', ''1-1'', ''y.jpg''], File 1704100000 1704100000 8),
      ([''photos'', ''Jan'', ''1-1'', ''x.jpg''], File 1704140000 1704150000 7)]
   \<and> fst (move_files utc_minus_8
     [([''photos''], Dir True),
      ([''photos'', ''Jan''], Dir True), ([''photos'', ''Jan'', ''1-1''], Dir True),
      ([''photos'', ''Jan'', ''1-1'', ''y.jpg''], File 1704100000 1704100000 8),
      ([''photos'', ''Jan'', ''1-1'', ''x.jpg''], File 1704140000 1704150000 7)]
     [''photos''] None)
   = [([''photos''], Dir True),
      ([''photos'', ''Jan''], Dir True), ([''photos'', ''Jan'', ''1-1''], Dir True),
      ([''photos'', ''Jan'', ''1-1'', ''y.jpg''], File 1704100000 1704100000 8),
      ([''photos'', ''Jan'', ''1-1'', ''x.jpg''], File 1704140000 1704150000 7)]
   \<and> (\<forall>e. ErrorMoving e \<notin> set (snd (move_files utc_minus_8
     [([''photos''], Dir True),
      ([''photos'', ''Jan''], Dir True), ([''photos'', ''Jan'', ''1-1''], Dir True),
      ([''photos'', ''Jan'', ''1-1'', ''y.jpg''], File 1704100000 1704100000 8),
      ([''photos'', ''Jan'', ''1-1'', ''x.jpg''], File 1704140000 1704150000 7)]
     [''photos''] None)))"
proof -
  let ?fs = "[([''photos''], Dir True), ([''photos'', ''x.jpg''], File 1704140000 1704150000 7),
      ([''photos'', ''Jan''], Dir True), ([''photos'', ''Jan'', ''1-1''], Dir True),
      ([''photos'', ''Jan'', ''1-1'', ''y.jpg''], File 1704100000 1704100000 8)]"
  let ?fs1 = "[([''photos''], Dir True),
      ([''photos'', ''Jan''], Dir True), ([''photos'', ''Jan'', ''1-1''], Dir True),
      ([''photos'', ''Jan'', ''1-1'', ''y.jpg''], File 1704100000 1704100000 8),
      ([''photos'', ''Jan'', ''1-1'', ''x.jpg''], File 1704140000 1704150000 7)]"
  let ?y = "[''photos'', ''Jan'', ''1-1'', ''y.jpg'']"
  let ?x = "[''photos'', ''Jan'', ''1-1'', ''x.jpg'']"
  have r1: "fst (move_files utc_minus_8 ?fs [''photos''] None) = ?fs1"
    by code_simp
  have h1: "in_bucket utc_minus_8 [''photos''] ?fs ?y"
    by code_simp
  have h2: "is_file ?fs1 ?x"
    by (simp add: is_file_def lookup_def)
  have h3: "lookup ?fs ?x = None"
    by (simp add: lookup_def)
  have h4: "lookup ?fs1 ?x \<noteq> lookup ?fs ?x"
    by (simp add: lookup_def)
  have h5: "all_in_buckets utc_minus_8 [''photos''] [''photos''] ?fs1"
    by code_simp
  have run1: "move_files utc_minus_8 ?fs [''photos''] None
                = (?fs1, snd (move_files utc_minus_8 ?fs [''photos''] None))"
    using r1 by (simp add: prod_eq_iff)
  have run2: "move_files utc_minus_8 ?fs1 [''photos''] None
                = (fst (move_files utc_minus_8 ?fs1 [''photos''] None),
                   snd (move_files utc_minus_8 ?fs1 [''photos''] None))"
    by simp
  note t = relocation_twice [OF run1 run2]
  have a: "lookup ?fs1 ?y = lookup ?fs ?y"
    using t [of ?y] h1 by blast
  have b: "fst (move_files utc_minus_8 ?fs1 [''photos''] None) = ?fs1
           \<and> (\<forall>e. ErrorMoving e \<notin> set (snd (move_files utc_minus_8 ?fs1 [''photos''] None)))"
    using t [of ?x] h5 by simp
  have "lookup ?fs ?y = Some (File 1704100000 1704100000 8)"
    by (simp add: lookup_def)
  with a have c: "lookup ?fs1 ?y = Some (File 1704100000 1704100000 8)"
    by simp
  from r1 h1 c h2 h3 h5 b show ?thesis
    by blast
qed

subsection \<open>C8: the skeleton builder\<close>

text \<open>
  C8, for the loops of \<^verbatim>\<open>all\<close> and \<^verbatim>\<open>year\<close> when they end normally (no \<^verbatim>\<open>mkdir\<close> failed),
  started at midnight of the day \<open>start\<close>. For every calendar date \<open>D\<close> from \<open>start\<close> on,
  up to today under \<^verbatim>\<open>all\<close> and before \<^verbatim>\<open>next_year\<close> under \<^verbatim>\<open>year\<close>, the path
  \<^verbatim>\<open><folder>/<year>/<Mon>/<month>-<day>\<close> of \<open>D\<close> exists afterwards: it is what it was
  when it existed before, and a directory when it did not. Running the loop again on the
  resulting file system returns the same file system and logs no creation: each directory
  is created at most once.
\<close>

theorem skeleton_builder_idempotent:
  assumes "all_loop folder today start fs log = (None, fs_all, log_all)"
    and "year_loop folder next_year start fs log = (None, end_year, fs_year, log_year)"
    and "midnight start" and "valid_date D" and "dt_le start D"
  shows "(dt_le D today \<longrightarrow>
            exists fs_all (year_target folder D)
            \<and> (exists fs (year_target folder D) \<longrightarrow>
                 lookup fs_all (year_target folder D) = lookup fs (year_target folder D))
            \<and> (\<not> exists fs (year_target folder D) \<longrightarrow> is_dir fs_all (year_target folder D)))
       \<and> (year D < next_year \<longrightarrow>
            exists fs_year (year_target folder D)
            \<and> (exists fs (year_target folder D) \<longrightarrow>
                 lookup fs_year (year_target folder D) = lookup fs (year_target folder D))
            \<and> (\<not> exists fs (year_target folder D) \<longrightarrow> is_dir fs_year (year_target folder D)))
       \<and> (\<exists>evs. all_loop folder today start fs_all log2 = (None, fs_all, log2 @ evs)
               \<and> (\<forall>p. Creating p \<notin> set evs))
       \<and> (\<exists>evs. year_loop folder next_year start fs_year log2
                 = (None, end_year, fs_year, log2 @ evs)
               \<and> (\<forall>p. Creating p \<notin> set evs))"
proof -
  let ?t = "year_target folder D"
  have A: "exists fs_all ?t \<and> (exists fs ?t \<longrightarrow> lookup fs_all ?t = lookup fs ?t)
           \<and> (\<not> exists fs ?t \<longrightarrow> is_dir fs_all ?t)" if "dt_le D today"
  proof -
    from assms that have "exists fs_all ?t" by (intro all_loop_covers)
    with all_loop_extends [OF assms(1)] show ?thesis by (rule extends_bucket)
  qed
  have B: "exists fs_year ?t \<and> (exists fs ?t \<longrightarrow> lookup fs_year ?t = lookup fs ?t)
           \<and> (\<not> exists fs ?t \<longrightarrow> is_dir fs_year ?t)" if "year D < next_year"
  proof -
    from assms(2,4) dt_le_date [OF assms(5)] that
    have "exists fs_year ?t" by (intro year_loop_covers)
    with year_loop_extends [OF assms(2)] show ?thesis by (rule extends_bucket)
  qed
  have C: "\<exists>evs. all_loop folder today start fs_all log2 = (None, fs_all, log2 @ evs)
               \<and> (\<forall>p. Creating p \<notin> set evs)"
    using assms(1) extends_refl by (rule all_loop_again)
  have D: "\<exists>evs. year_loop folder next_year start fs_year log2
                 = (None, end_year, fs_year, log2 @ evs)
               \<and> (\<forall>p. Creating p \<notin> set evs)"
    using assms(2) extends_refl by (rule year_loop_again)
  show ?thesis
  proof (intro conjI)
    show "dt_le D today \<longrightarrow>
            exists fs_all ?t \<and> (exists fs ?t \<longrightarrow> lookup fs_all ?t = lookup fs ?t)
            \<and> (\<not> exists fs ?t \<longrightarrow> is_dir fs_all ?t)"
      using A by (rule impI)
    show "year D < next_year \<longrightarrow>
            exists fs_year ?t \<and> (exists fs ?t \<longrightarrow> lookup fs_year ?t = lookup fs ?t)
            \<and> (\<not> exists fs ?t \<longrightarrow> is_dir fs_year ?t)"
      using B by (rule impI)
    show "\<exists>evs. all_loop folder today start fs_all log2 = (None, fs_all, log2 @ evs)
               \<and> (\<forall>p. Creating p \<notin> set evs)"
      by (rule C)
    show "\<exists>evs. year_loop folder next_year start fs_year log2
                 = (None, end_year, fs_year, log2 @ evs)
               \<and> (\<forall>p. Creating p \<notin> set evs)"
      by (rule D)
  qed
qed

theorem skeleton_builder_idempotent_witness:
  "all_loop [''photos'']
     \<lparr>year = 2024, month = 12, day = 31, hour = 0, minute = 0, second = 0, microsecond = 0\<rparr>
     \<lparr>year = 2024, month = 12, day = 30, hour = 0, minute = 0, second = 0, microsecond = 0\<rparr>
     [([''photos''], Dir True)] []
   = (None,
      [([''photos''], Dir True), ([''photos'', ''2024''], Dir True),
      ([''photos'', ''2024'', ''Dec''], Dir True),
      ([''photos'', ''2024'', ''Dec'', ''12-30''], Dir True),
      ([''photos'', ''2024'', ''Dec'', ''12-31''], Dir True)],
      [Creating [''photos'', ''2024'', ''Dec'', ''12-30''],
       Creating [''photos'', ''2024'', ''Dec'', ''12-31'']])
   \<and> year_loop [''photos''] 2025
     \<lparr>year = 2024, month = 12, day = 30, hour = 0, minute = 0, second = 0, microsecond = 0\<rparr>
     [([''photos''], Dir True)] []
   = (None,
      \<lparr>year = 2025, month = 1, day = 1, hour = 0, minute = 0, second = 0, microsecond = 0\<rparr>,
      [([''photos''], Dir True), ([''photos'', ''2024''], Dir True),
      ([''photos'', ''2024'', ''Dec''], Dir True),
      ([''photos'', ''2024'', ''Dec'', ''12-30''], Dir True),
      ([''photos'', ''2024'', ''Dec'', ''12-31''], Dir True)],
      [Creating [''photos'', ''2024'', ''Dec'', ''12-30''],
       Creating [''photos'', ''2024'', ''Dec'', ''12-31'']])
   \<and> midnight \<lparr>year = 2024, month = 12, day = 30, hour = 0, minute = 0, second = 0, microsecond = 0\<rparr>
   \<and> valid_date \<lparr>year = 2024, month = 12, day = 31, hour = 0, minute = 0, second = 0, microsecond = 0\<rparr>
   \<and> dt_le \<lparr>year = 2024, month = 12, day = 30, hour = 0, minute = 0, second = 0, microsecond = 0\<rparr>
           \<lparr>year = 2024, month = 12, day = 31, hour = 0, minute = 0, second = 0, microsecond = 0\<rparr>
   \<and> is_dir
      [([''photos''], Dir True), ([''photos'', ''2024''], Dir True),
      ([''photos'', ''2024'', ''Dec''], Dir True),
      ([''photos'', ''2024'', ''Dec'', ''12-30''], Dir True),
      ([''photos'', ''2024'', ''Dec'', ''12-31''], Dir True)]
      [''photos'', ''2024'', ''Dec'', ''12-31'']
   \<and> all_loop [''photos'']
     \<lparr>year = 2024, month = 12, day = 31, hour = 0, minute = 0, second = 0, microsecond = 0\<rparr>
     \<lparr>year = 2024, month = 12, day = 30, hour = 0, minute = 0, second = 0, microsecond = 0\<rparr>
     [([''photos''], Dir True), ([''photos'', ''2024''], Dir True),
      ([''photos'', ''2024'', ''Dec''], Dir True),
      ([''photos'', ''2024'', ''Dec'', ''12-30''], Dir True),
      ([''photos'', ''2024'', ''Dec'', ''12-31''], Dir True)] []
   = (None,
      [([''photos''], Dir True), ([''photos'', ''2024''], Dir True),
      ([''photos'', ''2024'', ''Dec''], Dir True),
      ([''photos'', ''2024'', ''Dec'', ''12-30''], Dir True),
      ([''photos'', ''2024'', ''Dec'', ''12-31''], Dir True)],
      [DirExists [''photos'', ''2024'', ''Dec'', ''12-30''],
       DirExists [''photos'', ''2024'', ''Dec'', ''12-31'']])"
proof -
  let ?start = "\<lparr>year = 2024, month = 12, day = 30, hour = 0, minute = 0, second = 0, microsecond = 0\<rparr>"
  let ?today = "\<lparr>year = 2024, month = 12, day = 31, hour = 0, minute = 0, second = 0, microsecond = 0\<rparr>"
  let ?fs = "[([''photos''], Dir True)]"
  let ?fs1 = "[([''photos''], Dir True), ([''photos'', ''2024''], Dir True),
      ([''photos'', ''2024'', ''Dec''], Dir True),
      ([''photos'', ''2024'', ''Dec'', ''12-30''], Dir True),
      ([''photos'', ''2024'', ''Dec'', ''12-31''], Dir True)]"
  let ?log = "[Creating [''photos'', ''2024'', ''Dec'', ''12-30''],
       Creating [''photos'', ''2024'', ''Dec'', ''12-31'']]"
  have h1: "all_loop [''photos''] ?today ?start ?fs [] = (None, ?fs1, ?log)"
    by code_simp
  have h2: "year_loop [''photos''] 2025 ?start ?fs []
              = (None, \<lparr>year = 2025, month = 1, day = 1, hour = 0, minute = 0, second = 0, microsecond = 0\<rparr>, ?fs1, ?log)"
    by code_simp
  have h3: "midnight ?start" by (simp add: midnight_def)
  have h4: "valid_date ?today" by (simp add: valid_date_def days_in_month_def MAXYEAR_def)
  have h5: "dt_le ?start ?today" by (simp add: dt_le_def)
  have h6: "dt_le ?today ?today" by (simp add: dt_le_def)
  have t: "year_target [''photos''] ?today = [''photos'', ''2024'', ''Dec'', ''12-31'']"
    by code_simp
  have n: "\<not> exists ?fs [''photos'', ''2024'', ''Dec'', ''12-31'']"
    by (simp add: exists_def lookup_def)
  from skeleton_builder_idempotent [OF h1 h2 h3 h4 h5, of "[]"] h6 n
  have d: "is_dir ?fs1 [''photos'', ''2024'', ''Dec'', ''12-31'']"
    unfolding t by blast
  have again: "all_loop [''photos''] ?today ?start ?fs1 []
      = (None, ?fs1, [DirExists [''photos'', ''2024'', ''Dec'', ''12-30''],
                      DirExists [''photos'', ''2024'', ''Dec'', ''12-31'']])"
    by code_simp
  from h1 h2 h3 h4 h5 d again show ?thesis by blast
qed

subsection \<open>C9: the bucket depends on the modification time only\<close>

text \<open>
  C9: the bucket of a file is computed from its modification time alone, converted to local
  time by the one fixed conversion \<open>localtime\<close> (in the program: to the zone
  \<^verbatim>\<open>America/Los_Angeles\<close>); the creation time is converted by the same function and
  logged, and has no other effect. For a file with modification time \<open>m\<close> and creation
  time \<open>c\<close>, the lines logged are the file, the local creation time, the local
  modification time, and the move to
  \<^verbatim>\<open><folder>/<first three letters of the month name>/<month>-<day>/<name>\<close>, with month
  and day those of the local modification time; the file either stays where it is or is
  afterwards at that path, and no longer at its old one. Two file systems that differ only
  in creation times are relocated in the same way: the resulting file systems again differ
  only in creation times, and the logs differ only in their "Creation time" lines.
\<close>

theorem bucket_ignores_creation_time:
  assumes "forget_ctime fs = forget_ctime fs2"
    and "lookup fs file_path = Some (File m c d)"
  shows "forget_ctime (fst (move_files localtime fs folder read_target))
           = forget_ctime (fst (move_files localtime fs2 folder read_target))
         \<and> other_lines (snd (move_files localtime fs folder read_target))
           = other_lines (snd (move_files localtime fs2 folder read_target))
         \<and> (\<exists>fs' evs.
               move_file localtime folder fs file_path =
                 (fs', [FoundFile file_path, CreationTime (localtime c),
                        ModifiedTime (localtime m),
                        Moving file_path
                          (folder @ [take 3 (month_name (month (localtime m))),
                           str_nat (month (localtime m)) @ ''-'' @ str_nat (day (localtime m)),
                           last file_path])]
                       @ evs)
               \<and> (fs' = fs
                    \<or> lookup fs'
                          (folder @ [take 3 (month_name (month (localtime m))),
                           str_nat (month (localtime m)) @ ''-'' @ str_nat (day (localtime m)),
                           last file_path])
                        = Some (File m c d)
                      \<and> lookup fs' file_path = None))"
proof -
  let ?dst = "folder @ [take 3 (month_name (month (localtime m))),
                        str_nat (month (localtime m)) @ ''-'' @ str_nat (day (localtime m)),
                        last file_path]"
  have a: "forget_ctime (fst (move_files localtime fs folder read_target))
           = forget_ctime (fst (move_files localtime fs2 folder read_target))"
    using move_files_forget [of localtime fs folder read_target]
      move_files_forget [of localtime fs2 folder read_target] assms(1) by simp
  have b: "other_lines (snd (move_files localtime fs folder read_target))
           = other_lines (snd (move_files localtime fs2 folder read_target))"
    using move_files_forget [of localtime fs folder read_target]
      move_files_forget [of localtime fs2 folder read_target] assms(1) by simp
  have t: "move_target folder (localtime m) @ [last file_path] = ?dst"
    by (simp add: move_target_def month_abbrev_def month_day_def)
  obtain fs' log' where mf: "move_file localtime folder fs file_path = (fs', log')"
    by (cases "move_file localtime folder fs file_path")
  have l: "\<exists>evs. log' = [FoundFile file_path, CreationTime (localtime c),
                          ModifiedTime (localtime m), Moving file_path ?dst] @ evs"
    using assms(2) mf t
    by (cases "try_move fs file_path (move_target folder (localtime m) @ [last file_path])")
       (auto simp: move_file_def Let_def)
  have r: "fs' = fs \<or> lookup fs' ?dst = Some (File m c d) \<and> lookup fs' file_path = None"
    using move_file_cases [OF mf]
  proof (elim disjE exE conjE)
    fix m' c' d'
    assume x: "lookup fs file_path = Some (File m' c' d')"
      "\<not> exists fs (move_target folder (localtime m') @ [last file_path])"
      "rename fs file_path (move_target folder (localtime m') @ [last file_path]) = Inr fs'"
    from x(1) assms(2) have e: "m' = m" "c' = c" "d' = d" by simp_all
    from x(1,2) have "file_path \<noteq> move_target folder (localtime m') @ [last file_path]"
      by (auto simp: exists_def)
    with lookup_rename_file [OF x(3) x(1)] e t show ?thesis by simp
  qed simp
  from mf l r have c: "\<exists>fs' evs.
               move_file localtime folder fs file_path =
                 (fs', [FoundFile file_path, CreationTime (localtime c),
                        ModifiedTime (localtime m), Moving file_path ?dst] @ evs)
               \<and> (fs' = fs
                    \<or> lookup fs' ?dst = Some (File m c d) \<and> lookup fs' file_path = None)"
    by blast
  from a b c show ?thesis by (intro conjI)
qed

text \<open>
  The witness: \<^verbatim>\<open>photos/x.jpg\<close> was modified at 2024-01-01 03:00:00 UTC, which in Los
  Angeles (eight hours behind UTC at that instant) is 2023-12-31 19:00:00, and created in
  March 2024 in the one file system and in December 1999 in the other. In both the file
  goes to \<^verbatim>\<open>photos/Dec/12-31\<close>, the bucket of the local modification date, and not to a
  bucket of the UTC date or of a creation date.
\<close>

theorem bucket_ignores_creation_time_witness:
  "forget_ctime
     [([''photos''], Dir True), ([''photos'', ''x.jpg''], File 1704078000 1710500000 7),
      ([''photos'', ''Dec''], Dir True), ([''photos'', ''Dec'', ''12-31''], Dir True)]
   = forget_ctime
     [([''photos''], Dir True), ([''photos'', ''x.jpg''], File 1704078000 946684800 7),
      ([''photos'', ''Dec''], Dir True), ([''photos'', ''Dec'', ''12-31''], Dir True)]
   \<and> lookup
     [([''photos''], Dir True), ([''photos'', ''x.jpg''], File 1704078000 1710500000 7),
      ([''photos'', ''Dec''], Dir True), ([''photos'', ''Dec'', ''12-31''], Dir True)]
     [''photos'', ''x.jpg''] = Some (File 1704078000 1710500000 7)
   \<and> forget_ctime (fst (move_files utc_minus_8
     [([''photos''], Dir True), ([''photos'', ''x.jpg''], File 1704078000 1710500000 7),
      ([''photos'', ''Dec''], Dir True), ([''photos'', ''Dec'', ''12-31''], Dir True)]
     [''photos''] None))
   = forget_ctime (fst (move_files utc_minus_8
     [([''photos''], Dir True), ([''photos'', ''x.jpg''], File 1704078000 946684800 7),
      ([''photos'', ''Dec''], Dir True), ([''photos'', ''Dec'', ''12-31''], Dir True)]
     [''photos''] None))
   \<and> other_lines (snd (move_files utc_minus_8
     [([''photos''], Dir True), ([''photos'', ''x.jpg''], File 1704078000 1710500000 7),
      ([''photos'', ''Dec''], Dir True), ([''photos'', ''Dec'', ''12-31''], Dir True)]
     [''photos''] None))
   = other_lines (snd (move_files utc_minus_8
     [([''photos''], Dir True), ([''photos'', ''x.jpg''], File 1704078000 946684800 7),
      ([''photos'', ''Dec''], Dir True), ([''photos'', ''Dec'', ''12-31''], Dir True)]
     [''photos''] None))
   \<and> move_file utc_minus_8 [''photos'']
     [([''photos''], Dir True), ([''photos'', ''x.jpg''], File 1704078000 1710500000 7),
      ([''photos'', ''Dec''], Dir True), ([''photos'', ''Dec'', ''12-31''], Dir True)]
     [''photos'', ''x.jpg'']
   = ([([''photos''], Dir True),
      ([''photos'', ''Dec''], Dir True), ([''photos'', ''Dec'', ''12-31''], Dir True),
      ([''photos'', ''Dec'', ''12-31'', ''x.jpg''], File 1704078000 1710500000 7)],
      [FoundFile [''photos'', ''x.jpg''],
       CreationTime
         \<lparr>year = 2024, month = 3, day = 15, hour = 2, minute = 53, second = 20,
          microsecond = 0\<rparr>,
       ModifiedTime
         \<lparr>year = 2023, month = 12, day = 31, hour = 19, minute = 0, second = 0,
          microsecond = 0\<rparr>,
       Moving [''photos'', ''x.jpg''] [''photos'', ''Dec'', ''12-31'', ''x.jpg'']])
   \<and> fst (move_files utc_minus_8
     [([''photos''], Dir True), ([''photos'', ''x.jpg''], File 1704078000 1710500000 7),
      ([''photos'', ''Dec''], Dir True), ([''photos'', ''Dec'', ''12-31''], Dir True)]
     [''photos''] None)
   = [([''photos''], Dir True),
      ([''photos'', ''Dec''], Dir True), ([''photos'', ''Dec'', ''12-31''], Dir True),
      ([''photos'', ''Dec'', ''12-31'', ''x.jpg''], File 1704078000 1710500000 7)]
   \<and> fst (move_files utc_minus_8
     [([''photos''], Dir True), ([''photos'', ''x.jpg''], File 1704078000 946684800 7),
      ([''photos'', ''Dec''], Dir True), ([''photos'', ''Dec'', ''12-31''], Dir True)]
     [''photos''] None)
   = [([''photos''], Dir True),
      ([''photos'', ''Dec''], Dir True), ([''photos'', ''Dec'', ''12-31''], Dir True),
      ([''photos'', ''Dec'', ''12-31'', ''x.jpg''], File 1704078000 946684800 7)]"
proof -
  let ?a = "[([''photos''], Dir True), ([''photos'', ''x.jpg''], File 1704078000 1710500000 7),
      ([''photos'', ''Dec''], Dir True), ([''photos'', ''Dec'', ''12-31''], Dir True)]"
  let ?b = "[([''photos''], Dir True), ([''photos'', ''x.jpg''], File 1704078000 946684800 7),
      ([''photos'', ''Dec''], Dir True), ([''photos'', ''Dec'', ''12-31''], Dir True)]"
  let ?a1 = "[([''photos''], Dir True),
      ([''photos'', ''Dec''], Dir True), ([''photos'', ''Dec'', ''12-31''], Dir True),
      ([''photos'', ''Dec'', ''12-31'', ''x.jpg''], File 1704078000 1710500000 7)]"
  let ?b1 = "[([''photos''], Dir True),
      ([''photos'', ''Dec''], Dir True), ([''photos'', ''Dec'', ''12-31''], Dir True),
      ([''photos'', ''Dec'', ''12-31'', ''x.jpg''], File 1704078000 946684800 7)]"
  have h1: "forget_ctime ?a = forget_ctime ?b"
    by (simp add: forget_ctime_def)
  have h2: "lookup ?a [''photos'', ''x.jpg''] = Some (File 1704078000 1710500000 7)"
    by (simp add: lookup_def)
  note t = bucket_ignores_creation_time [OF h1 h2, where localtime = utc_minus_8
      and folder = "[''photos'']" and read_target = None]
  have eq: "forget_ctime (fst (move_files utc_minus_8 ?a [''photos''] None))
              = forget_ctime (fst (move_files utc_minus_8 ?b [''photos''] None))
            \<and> other_lines (snd (move_files utc_minus_8 ?a [''photos''] None))
              = other_lines (snd (move_files utc_minus_8 ?b [''photos''] None))"
    using t by blast
  have step: "move_file utc_minus_8 [''photos''] ?a [''photos'', ''x.jpg'']
      = (?a1,
         [FoundFile [''photos'', ''x.jpg''],
       CreationTime
         \<lparr>year = 2024, month = 3, day = 15, hour = 2, minute = 53, second = 20,
          microsecond = 0\<rparr>,
       ModifiedTime
         \<lparr>year = 2023, month = 12, day = 31, hour = 19, minute = 0, second = 0,
          microsecond = 0\<rparr>,
       Moving [''photos'', ''x.jpg''] [''photos'', ''Dec'', ''12-31'', ''x.jpg'']])"
    by code_simp
  have ra: "fst (move_files utc_minus_8 ?a [''photos''] None) = ?a1"
    by code_simp
  have rb: "fst (move_files utc_minus_8 ?b [''photos''] None) = ?b1"
    by code_simp
  from h1 h2 eq step ra rb show ?thesis
    by (intro conjI) simp_all
qed

subsection \<open>C10: the relocator creates no directory\<close>

text \<open>
  C10: a relocation pass never changes which paths are directories, and when the bucket
  computed for a file does not exist, the rename fails with \<^verbatim>\<open>FileNotFoundError\<close>, the error
  is caught and logged, and the file system is returned as it was: the file is still at its
  original path under its original name.
\<close>

theorem relocator_creates_no_directory:
  assumes "well_formed fs"
    and "lookup fs file_path = Some (File m c d)"
    and "\<not> exists fs (move_target folder (localtime m))"
  shows "(\<forall>q. is_dir (fst (move_files localtime fs folder read_target)) q = is_dir fs q)
         \<and> move_file localtime folder fs file_path =
             (fs, [FoundFile file_path, CreationTime (localtime c), ModifiedTime (localtime m),
                   Moving file_path (move_target folder (localtime m) @ [last file_path]),
                   ErrorMoving FileNotFoundError])"
proof -
  let ?dst = "move_target folder (localtime m) @ [last file_path]"
  have "\<not> is_dir fs (butlast ?dst)"
    using assms(3) by (simp add: is_dir_def exists_def)
  then have "\<not> exists fs ?dst"
    using well_formed_parent [OF assms(1)] by blast
  moreover have "rename fs file_path ?dst = Inl FileNotFoundError"
    using assms(2,3) by (intro rename_missing_bucket) simp_all
  ultimately have "move_file localtime folder fs file_path =
             (fs, [FoundFile file_path, CreationTime (localtime c), ModifiedTime (localtime m),
                   Moving file_path ?dst, ErrorMoving FileNotFoundError])"
    using assms(2) by (simp add: move_file_failure)
  then show ?thesis
    by (simp add: move_files_def move_loop_is_dir)
qed

theorem relocator_creates_no_directory_witness:
  "well_formed [([''photos''], Dir True), ([''photos'', ''x.jpg''], File 1704140000 1704150000 7)]
   \<and> lookup [([''photos''], Dir True), ([''photos'', ''x.jpg''], File 1704140000 1704150000 7)]
         [''photos'', ''x.jpg''] = Some (File 1704140000 1704150000 7)
   \<and> \<not> exists [([''photos''], Dir True), ([''photos'', ''x.jpg''], File 1704140000 1704150000 7)]
         [''photos'', ''Jan'', ''1-1'']
   \<and> move_files utc_minus_8
         [([''photos''], Dir True), ([''photos'', ''x.jpg''], File 1704140000 1704150000 7)]
         [''photos''] None
       = ([([''photos''], Dir True), ([''photos'', ''x.jpg''], File 1704140000 1704150000 7)],
          [FoundFile [''photos'', ''x.jpg''],
           CreationTime
             \<lparr>year = 2024, month = 1, day = 1, hour = 15, minute = 0, second = 0,
              microsecond = 0\<rparr>,
           ModifiedTime
             \<lparr>year = 2024, month = 1, day = 1, hour = 12, minute = 13, second = 20,
              microsecond = 0\<rparr>,
           Moving [''photos'', ''x.jpg''] [''photos'', ''Jan'', ''1-1'', ''x.jpg''],
           ErrorMoving FileNotFoundError])"
proof -
  let ?fs = "[([''photos''], Dir True), ([''photos'', ''x.jpg''], File 1704140000 1704150000 7)]"
  have target: "move_target [''photos''] (utc_minus_8 1704140000) = [''photos'', ''Jan'', ''1-1'']"
    by code_simp
  have times: "utc_minus_8 1704140000 =
      \<lparr>year = 2024, month = 1, day = 1, hour = 12, minute = 13, second = 20, microsecond = 0\<rparr>"
    "utc_minus_8 1704150000 =
      \<lparr>year = 2024, month = 1, day = 1, hour = 15, minute = 0, second = 0, microsecond = 0\<rparr>"
    by code_simp+
  have h1: "well_formed ?fs" by (simp add: well_formed_def fs_eval)
  have h2: "lookup ?fs [''photos'', ''x.jpg''] = Some (File 1704140000 1704150000 7)"
    by (simp add: lookup_def)
  have h3: "\<not> exists ?fs [''photos'', ''Jan'', ''1-1'']"
    by (simp add: exists_def lookup_def)
  have "move_file utc_minus_8 [''photos''] ?fs [''photos'', ''x.jpg''] =
          (?fs, [FoundFile [''photos'', ''x.jpg''], CreationTime (utc_minus_8 1704150000),
                 ModifiedTime (utc_minus_8 1704140000),
                 Moving [''photos'', ''x.jpg''] [''photos'', ''Jan'', ''1-1'', ''x.jpg''],
                 ErrorMoving FileNotFoundError])"
    using h1 h2 h3
      relocator_creates_no_directory [where fs = ?fs and file_path = "[''photos'', ''x.jpg'']"
        and m = 1704140000 and c = 1704150000 and d = 7 and folder = "[''photos'']"
        and localtime = utc_minus_8]
    unfolding target by simp
  then have "move_files utc_minus_8 ?fs [''photos''] None =
          (?fs, [FoundFile [''photos'', ''x.jpg''], CreationTime (utc_minus_8 1704150000),
                 ModifiedTime (utc_minus_8 1704140000),
                 Moving [''photos'', ''x.jpg''] [''photos'', ''Jan'', ''1-1'', ''x.jpg''],
                 ErrorMoving FileNotFoundError])"
    by (simp add: move_files_def move_loop.simps rglob_def scan_def descend_def iterdir_def
        is_dir_def lookup_def)
  with h1 h2 h3 show ?thesis
    unfolding times by simp
qed

end
